theory Spec2Isabelle
  imports Main "HOL-Library.Sublist"
begin

section \<open>Python values\<close>

text \<open>
  The serializers of \<^verbatim>\<open>shipit_dashboard/serializers.py\<close> work on the dynamically
  typed values that a decoded tracker payload is made of: \<^verbatim>\<open>None\<close>, booleans, integers,
  strings, lists and dictionaries with string keys. A dictionary is an association list
  in insertion order, as Python keeps it; a well-formed dictionary has distinct keys.
  Floating point numbers are left out. A character is a code point below 256.
\<close>

datatype json =
    JNull
  | JBool bool
  | JInt int
  | JStr string
  | JList "json list"
  | JDict "(string \<times> json) list"

text \<open>
  Every exception of the source is a value: the two explicit \<^verbatim>\<open>raise Exception(msg)\<close>
  of \<^verbatim>\<open>serialize_bug\<close>, and the faults of the unguarded accesses (a missing key, a
  subscript or an iteration on a value that has none, a method on a value that lacks it).
\<close>

datatype error =
    Exception string
  | KeyError string
  | TypeError
  | AttributeError

type_synonym 'a result = "error + 'a"

definition bindE :: "'a result \<Rightarrow> ('a \<Rightarrow> 'b result) \<Rightarrow> 'b result" where
  "bindE m f = (case m of Inl e \<Rightarrow> Inl e | Inr x \<Rightarrow> f x)"

text \<open>Python's truth value of an object, as \<^verbatim>\<open>not x\<close> and \<^verbatim>\<open>if x\<close> use it.\<close>

fun truthy :: "json \<Rightarrow> bool" where
  "truthy JNull = False"
| "truthy (JBool b) = b"
| "truthy (JInt i) = (i \<noteq> 0)"
| "truthy (JStr s) = (s \<noteq> [])"
| "truthy (JList xs) = (xs \<noteq> [])"
| "truthy (JDict kvs) = (kvs \<noteq> [])"

text \<open>\<^verbatim>\<open>d.get(k, default)\<close>: only a dictionary has the method.\<close>

definition py_get :: "json \<Rightarrow> string \<Rightarrow> json \<Rightarrow> json result" where
  "py_get d k dflt =
     (case d of
        JDict kvs \<Rightarrow> Inr (case map_of kvs k of Some v \<Rightarrow> v | None \<Rightarrow> dflt)
      | _ \<Rightarrow> Inl AttributeError)"

text \<open>\<^verbatim>\<open>d[k]\<close> with a string \<^verbatim>\<open>k\<close>: a missing key of a dictionary is a
  \<^verbatim>\<open>KeyError\<close>, and no other value takes a string subscript.\<close>

definition getitem :: "json \<Rightarrow> string \<Rightarrow> json result" where
  "getitem d k =
     (case d of
        JDict kvs \<Rightarrow> (case map_of kvs k of Some v \<Rightarrow> Inr v | None \<Rightarrow> Inl (KeyError k))
      | _ \<Rightarrow> Inl TypeError)"

text \<open>\<^verbatim>\<open>d[k] = v\<close> on a dictionary: an existing key keeps its place, a new key goes
  last.\<close>

fun dict_set :: "('k \<times> 'v) list \<Rightarrow> 'k \<Rightarrow> 'v \<Rightarrow> ('k \<times> 'v) list" where
  "dict_set [] k v = [(k, v)]"
| "dict_set ((k', v') # kvs) k v =
     (if k' = k then (k, v) # kvs else (k', v') # dict_set kvs k v)"

text \<open>\<^verbatim>\<open>dict(pairs)\<close>: the pairs are stored one after the other.\<close>

definition py_dict :: "('k \<times> 'v) list \<Rightarrow> ('k \<times> 'v) list" where
  "py_dict pairs = foldl (\<lambda>d (k, v). dict_set d k v) [] pairs"

text \<open>\<^verbatim>\<open>for x in v\<close>: a list gives its elements, a dictionary its keys, a string its
  characters; nothing else is iterable.\<close>

definition py_iter :: "json \<Rightarrow> json list result" where
  "py_iter v =
     (case v of
        JList xs \<Rightarrow> Inr xs
      | JDict kvs \<Rightarrow> Inr (map (\<lambda>(k, _). JStr k) kvs)
      | JStr s \<Rightarrow> Inr (map (\<lambda>c. JStr [c]) s)
      | _ \<Rightarrow> Inl TypeError)"

text \<open>\<^verbatim>\<open>k in v\<close> for a string \<^verbatim>\<open>k\<close>: a key of a dictionary, an element of a list, a
  substring of a string.\<close>

fun is_substring :: "'a list \<Rightarrow> 'a list \<Rightarrow> bool" where
  "is_substring k [] = (k = [])"
| "is_substring k (c # cs) = (prefix k (c # cs) \<or> is_substring k cs)"

definition py_in :: "string \<Rightarrow> json \<Rightarrow> bool result" where
  "py_in k v =
     (case v of
        JDict kvs \<Rightarrow> Inr (k \<in> set (map fst kvs))
      | JList xs \<Rightarrow> Inr (JStr k \<in> set xs)
      | JStr s \<Rightarrow> Inr (is_substring k s)
      | _ \<Rightarrow> Inl TypeError)"

section \<open>Strings\<close>

text \<open>\<^verbatim>\<open>str.strip()\<close> removes the white space at both ends. The white space below
  code point 256 is \<^verbatim>\<open>\t \n \x0b \x0c \r\<close>, \<^verbatim>\<open>\x1c\<close> to \<^verbatim>\<open>\x1f\<close>, the blank,
  \<^verbatim>\<open>\x85\<close> and \<^verbatim>\<open>\xa0\<close>.\<close>

definition isspace :: "char \<Rightarrow> bool" where
  "isspace c =
     (let n = (of_char c :: nat)
      in (9 \<le> n \<and> n \<le> 13) \<or> (28 \<le> n \<and> n \<le> 32) \<or> n = 133 \<or> n = 160)"

definition strip :: "string \<Rightarrow> string" where
  "strip s = rev (dropWhile isspace (rev (dropWhile isspace s)))"

text \<open>\<^verbatim>\<open>str.lower()\<close>: below code point 256 the upper-case letters are \<^verbatim>\<open>A\<close> to
  \<^verbatim>\<open>Z\<close> and \<^verbatim>\<open>\xc0\<close> to \<^verbatim>\<open>\xde\<close> without the multiplication sign \<^verbatim>\<open>\xd7\<close>; the
  lower-case letter is 32 code points above.\<close>

definition lower_char :: "char \<Rightarrow> char" where
  "lower_char c =
     (let n = (of_char c :: nat)
      in if (65 \<le> n \<and> n \<le> 90) \<or> (192 \<le> n \<and> n \<le> 222 \<and> n \<noteq> 215)
         then char_of (n + 32) else c)"

definition lower :: "string \<Rightarrow> string" where
  "lower s = map lower_char s"

text \<open>\<^verbatim>\<open>s.startswith(p)\<close> is \<^const>\<open>prefix\<close>. \<^verbatim>\<open>s.replace(old, new)\<close> replaces every
  occurrence of \<^verbatim>\<open>old\<close>, from the left, without overlap; with a count of one,
  \<^verbatim>\<open>s.replace(old, new, 1)\<close> replaces the leftmost occurrence only. An empty \<^verbatim>\<open>old\<close>
  matches before every character and at the end.\<close>

function replace :: "string \<Rightarrow> string \<Rightarrow> string \<Rightarrow> string" where
  "replace old new s =
     (if old = [] then new @ concat (map (\<lambda>c. c # new) s)
      else if prefix old s then new @ replace old new (drop (length old) s)
      else (case s of [] \<Rightarrow> [] | c # cs \<Rightarrow> c # replace old new cs))"
  by pat_completeness auto
termination
  by (relation "measure (\<lambda>(old, new, s). length s)") (auto simp: prefix_def)

declare replace.simps [simp del]

fun replace1 :: "string \<Rightarrow> string \<Rightarrow> string \<Rightarrow> string" where
  "replace1 old new [] = (if old = [] then new else [])"
| "replace1 old new (c # cs) =
     (if prefix old (c # cs) then new @ drop (length old) (c # cs)
      else c # replace1 old new cs)"

text \<open>\<^verbatim>\<open>str(n)\<close> of an integer is its decimal numeral.\<close>

definition digit_char :: "nat \<Rightarrow> char" where
  "digit_char d = ''0123456789'' ! d"

function str_nat :: "nat \<Rightarrow> string" where
  "str_nat n = (if n < 10 then [digit_char n] else str_nat (n div 10) @ [digit_char (n mod 10)])"
  by pat_completeness auto
termination
  by (relation "measure (\<lambda>n. n)") auto

declare str_nat.simps [simp del]

definition str_int :: "int \<Rightarrow> string" where
  "str_int i = (if i < 0 then CHR ''-'' # str_nat (nat (- i)) else str_nat (nat i))"

text \<open>
  Two library functions are parameters of the model: the hexadecimal MD5 digest of the
  UTF-8 encoding of a string (\<^verbatim>\<open>hashlib.md5(s.encode('utf-8')).hexdigest()\<close>), and the
  text that \<^verbatim>\<open>str\<close> gives for a list or a dictionary.
\<close>

record builtins =
  md5_hexdigest :: "string \<Rightarrow> string"
  repr_container :: "json \<Rightarrow> string"

text \<open>\<^verbatim>\<open>str(v)\<close>, which \<^verbatim>\<open>'{}'.format(v)\<close> gives too.\<close>

definition py_str :: "builtins \<Rightarrow> json \<Rightarrow> string" where
  "py_str B v =
     (case v of
        JNull \<Rightarrow> ''None''
      | JBool b \<Rightarrow> (if b then ''True'' else ''False'')
      | JInt i \<Rightarrow> str_int i
      | JStr s \<Rightarrow> s
      | _ \<Rightarrow> repr_container B v)"

section \<open>The entities\<close>

text \<open>
  A bug and an analysis are objects of the persistence layer; the serializers read the
  attributes below. The attributes \<^verbatim>\<open>id\<close> and \<^verbatim>\<open>name\<close> carry the entity's name here,
  since \<^verbatim>\<open>id\<close> is a function of the logic.
\<close>

record bug =
  bug_id :: json
  bugzilla_id :: json
  payload :: json
  payload_data :: json

record analysis =
  analysis_id :: json
  analysis_name :: json
  parameters :: json
  bugs :: "bug list"

section \<open>\<^verbatim>\<open>serialize_user\<close>\<close>

text \<open>
  Lines 9 to 17: a dictionary is taken as it is, with \<^verbatim>\<open>email\<close> set from \<^verbatim>\<open>name\<close> when it
  has none; any other value becomes both the \<^verbatim>\<open>email\<close> and the \<^verbatim>\<open>real_name\<close> of a new
  dictionary.
\<close>

definition user_dict :: "json \<Rightarrow> (string \<times> json) list result" where
  "user_dict user =
     (case user of
        JDict out \<Rightarrow>
          (if ''email'' \<notin> set (map fst out)
           then bindE (getitem (JDict out) ''name'') (\<lambda>n. Inr (dict_set out ''email'' n))
           else Inr out)
      | _ \<Rightarrow> Inr [(''email'', user), (''real_name'', user)])"

text \<open>Line 20: \<^verbatim>\<open>strip\<close> and \<^verbatim>\<open>lower\<close> are methods of a string only.\<close>

definition normalized_email :: "json \<Rightarrow> string result" where
  "normalized_email e = (case e of JStr s \<Rightarrow> Inr (lower (strip s)) | _ \<Rightarrow> Inl AttributeError)"

definition gravatar :: "builtins \<Rightarrow> string \<Rightarrow> string" where
  "gravatar B email = ''https://www.gravatar.com/avatar/'' @ md5_hexdigest B email"

definition serialize_user :: "builtins \<Rightarrow> json \<Rightarrow> json result" where
  "serialize_user B user =
     bindE (user_dict user) (\<lambda>out.
     bindE (getitem (JDict out) ''email'') (\<lambda>e.
     bindE (normalized_email e) (\<lambda>email.
     Inr (JDict (dict_set out ''avatar'' (JStr (gravatar B email)))))))"

section \<open>\<^verbatim>\<open>serialize_bug\<close>\<close>

text \<open>Lines 38 to 51, the uplift block. The right operand of \<^verbatim>\<open>and\<close> is evaluated only
  when the left one is true.\<close>

definition build_uplift :: "builtins \<Rightarrow> json \<Rightarrow> json result" where
  "build_uplift B analysis =
     bindE (py_get analysis ''uplift_comment'' JNull) (\<lambda>c.
     bindE (if truthy c then py_get analysis ''uplift_author'' JNull else Inr c) (\<lambda>a.
     if truthy a then
       bindE (getitem analysis ''uplift_author'') (\<lambda>author.
       bindE (getitem analysis ''uplift_comment'') (\<lambda>comment.
       bindE (py_in ''html'' comment) (\<lambda>has_html.
       bindE (if has_html then getitem comment ''html''
              else py_get comment ''text'' (JStr ''No comment.'')) (\<lambda>comment_html.
       bindE (getitem comment ''id'') (\<lambda>comment_id.
       bindE (serialize_user B author) (\<lambda>author'.
       Inr (JDict [(''id'', comment_id), (''author'', author'), (''comment'', comment_html)])))))))
     else Inr JNull))"

text \<open>
  Lines 55 to 69, the versions. An entry of \<^verbatim>\<open>versions\<close> is made by line 64 only, so it
  is a record here: the flag's name and status as they are, and the attachment ids as
  strings.
\<close>

record version =
  version_name :: json
  version_attachments :: "string list"
  version_status :: json

definition approval_base_flag :: string where
  "approval_base_flag = ''approval-mozilla-''"

text \<open>\<^verbatim>\<open>flag['name'].startswith(...)\<close> and \<^verbatim>\<open>.replace(...)\<close> are methods of a string.\<close>

definition as_str :: "json \<Rightarrow> string result" where
  "as_str v = (case v of JStr s \<Rightarrow> Inr s | _ \<Rightarrow> Inl AttributeError)"

definition base_name :: "string \<Rightarrow> string" where
  "base_name flag_name = replace approval_base_flag [] flag_name"

definition version_key :: "builtins \<Rightarrow> string \<Rightarrow> json \<Rightarrow> string" where
  "version_key B flag_name status = base_name flag_name @ '' '' @ py_str B status"

text \<open>The body of the inner loop, lines 59 to 69, for the attachment \<^verbatim>\<open>a\<close> and one of its
  flags.\<close>

definition version_flag ::
  "builtins \<Rightarrow> json \<Rightarrow> (string \<times> version) list \<Rightarrow> json \<Rightarrow> (string \<times> version) list result"
where
  "version_flag B a versions flag =
     bindE (getitem flag ''name'') (\<lambda>fname.
     bindE (as_str fname) (\<lambda>flag_name.
     if \<not> prefix approval_base_flag flag_name then Inr versions
     else
       bindE (getitem flag ''status'') (\<lambda>status.
       let name = version_key B flag_name status in
       bindE (if name \<notin> set (map fst versions)
              then bindE (getitem flag ''name'') (\<lambda>n.
                   bindE (getitem flag ''status'') (\<lambda>st.
                   Inr (dict_set versions name
                          \<lparr>version_name = n, version_attachments = [], version_status = st\<rparr>)))
              else Inr versions) (\<lambda>versions'.
       case map_of versions' name of
         None \<Rightarrow> Inl (KeyError name)
       | Some entry \<Rightarrow>
           bindE (getitem a ''id'') (\<lambda>i.
           Inr (dict_set versions' name
                  (entry\<lparr>version_attachments := version_attachments entry @ [py_str B i]\<rparr>)))))))"

fun version_flags ::
  "builtins \<Rightarrow> json \<Rightarrow> (string \<times> version) list \<Rightarrow> json list \<Rightarrow> (string \<times> version) list result"
where
  "version_flags B a versions [] = Inr versions"
| "version_flags B a versions (flag # flags) =
     bindE (version_flag B a versions flag) (\<lambda>versions'. version_flags B a versions' flags)"

fun version_attachments_loop ::
  "builtins \<Rightarrow> (string \<times> version) list \<Rightarrow> json list \<Rightarrow> (string \<times> version) list result"
where
  "version_attachments_loop B versions [] = Inr versions"
| "version_attachments_loop B versions (a # as) =
     bindE (getitem a ''flags'') (\<lambda>fl.
     bindE (py_iter fl) (\<lambda>flags.
     bindE (version_flags B a versions flags) (\<lambda>versions'.
     version_attachments_loop B versions' as)))"

definition version_json :: "version \<Rightarrow> json" where
  "version_json v =
     JDict [(''name'', version_name v),
            (''attachments'', JList (map JStr (version_attachments v))),
            (''status'', version_status v)]"

definition build_versions :: "builtins \<Rightarrow> json \<Rightarrow> json result" where
  "build_versions B bug_data =
     bindE (py_get bug_data ''attachments'' (JList [])) (\<lambda>atts.
     bindE (py_iter atts) (\<lambda>as.
     bindE (version_attachments_loop B [] as) (\<lambda>versions.
     Inr (JDict (map (\<lambda>(k, v). (k, version_json v)) versions)))))"

text \<open>Lines 72 to 77, the custom flags. \<^verbatim>\<open>bug_data.items()\<close> is a method of a dictionary.\<close>

definition status_base_flag :: string where
  "status_base_flag = ''cf_status_''"

definition tracking_base_flag :: string where
  "tracking_base_flag = ''cf_tracking_''"

definition filter_flags :: "json \<Rightarrow> string \<Rightarrow> json result" where
  "filter_flags bug_data base =
     (case bug_data of
        JDict items \<Rightarrow>
          Inr (JDict (py_dict
            (map (\<lambda>(k, v). (replace1 base [] k, v))
               (filter (\<lambda>(k, v). prefix (base @ ''firefox'') k) items))))
      | _ \<Rightarrow> Inl AttributeError)"

text \<open>The list comprehension of line 92.\<close>

fun serialize_users :: "builtins \<Rightarrow> json list \<Rightarrow> json list result" where
  "serialize_users B [] = Inr []"
| "serialize_users B (r # rs) =
     bindE (serialize_user B r) (\<lambda>u.
     bindE (serialize_users B rs) (\<lambda>us. Inr (u # us)))"

text \<open>Lines 79 to 105: the values of the result, in the order the dictionary display
  evaluates them.\<close>

definition bug_fields ::
  "builtins \<Rightarrow> bug \<Rightarrow> json \<Rightarrow> json \<Rightarrow> json \<Rightarrow> json \<Rightarrow> json \<Rightarrow> json result"
where
  "bug_fields B b payload_v bug_data analysis uplift versions =
     bindE (py_get payload_v ''url'' (JStr (''https://bugzil.la/'' @ py_str B (bugzilla_id b)))) (\<lambda>url.
     bindE (getitem bug_data ''summary'') (\<lambda>summary.
     bindE (getitem bug_data ''keywords'') (\<lambda>keywords.
     bindE (filter_flags bug_data status_base_flag) (\<lambda>flags_status.
     bindE (filter_flags bug_data tracking_base_flag) (\<lambda>flags_tracking.
     bindE (bindE (bindE (getitem analysis ''users'') (\<lambda>us. getitem us ''creator''))
              (serialize_user B)) (\<lambda>creator.
     bindE (bindE (bindE (getitem analysis ''users'') (\<lambda>us. getitem us ''assignee''))
              (serialize_user B)) (\<lambda>assignee.
     bindE (bindE (bindE (bindE (getitem analysis ''users'') (\<lambda>us. getitem us ''reviewers''))
              py_iter) (serialize_users B)) (\<lambda>reviewers.
     bindE (py_get analysis ''changes_size'' (JInt 0)) (\<lambda>changes_size.
     bindE (getitem analysis ''patches'') (\<lambda>patches.
     Inr (JDict
       [(''id'', bug_id b),
        (''bugzilla_id'', bugzilla_id b),
        (''url'', url),
        (''summary'', summary),
        (''keywords'', keywords),
        (''flags_status'', flags_status),
        (''flags_tracking'', flags_tracking),
        (''creator'', creator),
        (''assignee'', assignee),
        (''reviewers'', JList reviewers),
        (''changes_size'', changes_size),
        (''uplift'', uplift),
        (''patches'', patches),
        (''versions'', versions)])))))))))))"

definition serialize_bug :: "builtins \<Rightarrow> bug \<Rightarrow> json result" where
  "serialize_bug B b =
     (let payload_v = payload_data b in
      if \<not> truthy payload_v then Inl (Exception ''Missing payload'')
      else
        bindE (py_get payload_v ''bug'' JNull) (\<lambda>bug_data.
        bindE (py_get payload_v ''analysis'' JNull) (\<lambda>analysis.
        if \<not> truthy bug_data \<or> \<not> truthy analysis
        then Inl (Exception ''Missing Bug data or Analysis'')
        else
          bindE (build_uplift B analysis) (\<lambda>uplift.
          bindE (build_versions B bug_data) (\<lambda>versions.
          bug_fields B b payload_v bug_data analysis uplift versions)))))"

section \<open>\<^verbatim>\<open>serialize_analysis\<close>\<close>

text \<open>The list comprehension of line 120: the bugs without a payload are skipped, and the
  first exception ends the call.\<close>

fun serialize_bugs :: "builtins \<Rightarrow> bug list \<Rightarrow> json list result" where
  "serialize_bugs B [] = Inr []"
| "serialize_bugs B (b # bs) =
     (if truthy (payload b)
      then bindE (serialize_bug B b) (\<lambda>j.
           bindE (serialize_bugs B bs) (\<lambda>js. Inr (j # js)))
      else serialize_bugs B bs)"

definition serialize_analysis :: "builtins \<Rightarrow> analysis \<Rightarrow> bool \<Rightarrow> json result" where
  "serialize_analysis B a full =
     (let out = [(''id'', analysis_id a),
                 (''name'', analysis_name a),
                 (''count'', JInt (int (length (bugs a)))),
                 (''parameters'', parameters a)]
      in if full
         then bindE (serialize_bugs B (bugs a)) (\<lambda>js. Inr (JDict (dict_set out ''bugs'' (JList js))))
         else Inr (JDict (dict_set out ''bugs'' (JList []))))"

section \<open>Well-formed inputs\<close>

text \<open>
  The users that \<^verbatim>\<open>serialize_user\<close> accepts: a dictionary whose \<^verbatim>\<open>email\<close> is a string, a
  dictionary without \<^verbatim>\<open>email\<close> whose \<^verbatim>\<open>name\<close> is a string, or a bare string.
\<close>

fun is_str :: "json \<Rightarrow> bool" where
  "is_str (JStr s) = True"
| "is_str _ = False"

definition valid_user :: "json \<Rightarrow> bool" where
  "valid_user user =
     (case user of
        JDict kvs \<Rightarrow>
          (case map_of kvs ''email'' of
             Some e \<Rightarrow> is_str e
           | None \<Rightarrow> (case map_of kvs ''name'' of Some n \<Rightarrow> is_str n | None \<Rightarrow> False))
      | JStr s \<Rightarrow> True
      | _ \<Rightarrow> False)"

text \<open>
  The rest of an analysis that \<^verbatim>\<open>serialize_bug\<close> reads. An uplift request with a comment
  and an author that are both true is well-formed when the comment is a dictionary with
  an \<^verbatim>\<open>id\<close> and the author is a valid user. The \<^verbatim>\<open>users\<close> are a dictionary with a valid
  \<^verbatim>\<open>creator\<close>, a valid \<^verbatim>\<open>assignee\<close> and a list of valid \<^verbatim>\<open>reviewers\<close>. A well-formed
  analysis has such users, has \<^verbatim>\<open>patches\<close>, and its uplift request, if any, is well-formed.
\<close>

definition valid_uplift :: "(string \<times> json) list \<Rightarrow> bool" where
  "valid_uplift an =
     (case (map_of an ''uplift_comment'', map_of an ''uplift_author'') of
        (Some c, Some a) \<Rightarrow>
          (if truthy c \<and> truthy a
           then (case c of JDict cd \<Rightarrow> map_of cd ''id'' \<noteq> None | _ \<Rightarrow> False) \<and> valid_user a
           else True)
      | _ \<Rightarrow> True)"

definition valid_users :: "json \<Rightarrow> bool" where
  "valid_users us =
     (case us of
        JDict ud \<Rightarrow>
          (case (map_of ud ''creator'', map_of ud ''assignee'', map_of ud ''reviewers'') of
             (Some c, Some a, Some (JList rs)) \<Rightarrow>
               valid_user c \<and> valid_user a \<and> list_all valid_user rs
           | _ \<Rightarrow> False)
      | _ \<Rightarrow> False)"

definition valid_analysis :: "(string \<times> json) list \<Rightarrow> bool" where
  "valid_analysis an =
     ((case map_of an ''users'' of Some us \<Rightarrow> valid_users us | None \<Rightarrow> False)
      \<and> map_of an ''patches'' \<noteq> None
      \<and> valid_uplift an)"

section \<open>Well-formed attachments\<close>

text \<open>
  An attachment has an id and a list of flags; a flag has a name, which is a string, and
  a status. \<^term>\<open>is_flag f n s\<close> and \<^term>\<open>is_attachment a i fl\<close> read these out of the
  dictionaries, which may hold other keys too. The flags of a list of attachments, each
  with the id of its attachment, are \<^term>\<open>flag_triples\<close> in the order the two loops visit
  them; \<^term>\<open>approval_hits B key\<close> keeps the approval flags that are grouped under
  \<^term>\<open>key\<close>.
\<close>

definition is_flag :: "json \<Rightarrow> string \<Rightarrow> json \<Rightarrow> bool" where
  "is_flag f n s =
     (case f of
        JDict fd \<Rightarrow> map_of fd ''name'' = Some (JStr n) \<and> map_of fd ''status'' = Some s
      | _ \<Rightarrow> False)"

definition is_attachment :: "json \<Rightarrow> json \<Rightarrow> (string \<times> json) list \<Rightarrow> bool" where
  "is_attachment a i fl =
     (case a of
        JDict ad \<Rightarrow>
          map_of ad ''id'' = Some i \<and>
          (case map_of ad ''flags'' of
             Some (JList fs) \<Rightarrow> list_all2 (\<lambda>f (n, s). is_flag f n s) fs fl
           | _ \<Rightarrow> False)
      | _ \<Rightarrow> False)"

definition flag_triples :: "(json \<times> (string \<times> json) list) list \<Rightarrow> (json \<times> string \<times> json) list" where
  "flag_triples tas = concat (map (\<lambda>(i, fl). map (\<lambda>(n, s). (i, n, s)) fl) tas)"

definition approval_hits ::
  "builtins \<Rightarrow> string \<Rightarrow> (json \<times> (string \<times> json) list) list \<Rightarrow> (json \<times> string \<times> json) list"
where
  "approval_hits B key tas =
     filter (\<lambda>(i, n, s). prefix approval_base_flag n \<and> version_key B n s = key)
       (flag_triples tas)"

text \<open>One round of the inner loop, lines 59 to 69, on a well-formed flag.\<close>

definition version_step ::
  "builtins \<Rightarrow> (string \<times> version) list \<Rightarrow> json \<times> string \<times> json \<Rightarrow> (string \<times> version) list"
where
  "version_step B vs t =
     (case t of (i, n, s) \<Rightarrow>
        if \<not> prefix approval_base_flag n then vs
        else
          (case map_of vs (version_key B n s) of
             None \<Rightarrow> dict_set vs (version_key B n s)
               \<lparr>version_name = JStr n, version_attachments = [py_str B i], version_status = s\<rparr>
           | Some e \<Rightarrow> dict_set vs (version_key B n s)
               (e\<lparr>version_attachments := version_attachments e @ [py_str B i]\<rparr>)))"

section \<open>Raised exceptions and faults\<close>

text \<open>
  An error is either one of the two exceptions that \<^verbatim>\<open>serialize_bug\<close> raises itself, or a
  fault of an unguarded access. \<^term>\<open>no_raise r\<close> says that the outcome \<^term>\<open>r\<close> is not a
  raised exception.
\<close>

fun is_exception :: "error \<Rightarrow> bool" where
  "is_exception (Exception m) = True"
| "is_exception _ = False"

definition no_raise :: "'a result \<Rightarrow> bool" where
  "no_raise r = (case r of Inl e \<Rightarrow> \<not> is_exception e | Inr x \<Rightarrow> True)"

section \<open>Example inputs\<close>

text \<open>
  The properties below hold for every choice of the two library functions. Where a
  property is run on an example, the digest is the identity and the text of a container
  is a question mark: stand-ins that keep the example readable.
\<close>

definition toy_builtins :: builtins where
  "toy_builtins = \<lparr>md5_hexdigest = (\<lambda>s. s), repr_container = (\<lambda>v. ''?'')\<rparr>"

text \<open>A bug with two attachments that carry the same approval flag, three custom fields,
  an uplift request, and users in the three shapes: a dictionary with an email, a bare
  string, a dictionary with a name only.\<close>

definition flag_beta :: json where
  "flag_beta = JDict [(''name'', JStr ''approval-mozilla-beta''), (''status'', JStr ''+'')]"

definition ex_bug_data :: "(string \<times> json) list" where
  "ex_bug_data =
     [(''summary'', JStr ''A bug''),
      (''keywords'', JList []),
      (''cf_status_firefox45'', JStr ''fixed''),
      (''cf_tracking_firefox45'', JStr ''+''),
      (''cf_status_thunderbird'', JStr ''---''),
      (''attachments'',
         JList [JDict [(''id'', JInt 42), (''flags'', JList [flag_beta])],
                JDict [(''id'', JInt 43), (''flags'', JList [flag_beta])]])]"

definition ex_analysis_data :: "(string \<times> json) list" where
  "ex_analysis_data =
     [(''users'',
         JDict [(''creator'', JDict [(''name'', JStr ''Ann''), (''email'', JStr ''Ann@X.org '')]),
                (''assignee'', JStr ''bob@x.org''),
                (''reviewers'', JList [JDict [(''name'', JStr ''carl'')]])]),
      (''uplift_comment'', JDict [(''id'', JInt 7), (''text'', JStr ''please'')]),
      (''uplift_author'', JDict [(''name'', JStr ''dora'')]),
      (''patches'', JDict [])]"

definition ex_payload :: "(string \<times> json) list" where
  "ex_payload = [(''bug'', JDict ex_bug_data), (''analysis'', JDict ex_analysis_data)]"

definition ex_bug :: bug where
  "ex_bug = \<lparr>bug_id = JInt 1, bugzilla_id = JInt 1234, payload = JStr ''x'',
              payload_data = JDict ex_payload\<rparr>"

definition ex_bug_out :: "(string \<times> json) list" where
  "ex_bug_out =
     [(''id'', JInt 1),
      (''bugzilla_id'', JInt 1234),
      (''url'', JStr ''https://bugzil.la/1234''),
      (''summary'', JStr ''A bug''),
      (''keywords'', JList []),
      (''flags_status'', JDict [(''firefox45'', JStr ''fixed'')]),
      (''flags_tracking'', JDict [(''firefox45'', JStr ''+'')]),
      (''creator'',
         JDict [(''name'', JStr ''Ann''), (''email'', JStr ''Ann@X.org ''),
                (''avatar'', JStr ''https://www.gravatar.com/avatar/ann@x.org'')]),
      (''assignee'',
         JDict [(''email'', JStr ''bob@x.org''), (''real_name'', JStr ''bob@x.org''),
                (''avatar'', JStr ''https://www.gravatar.com/avatar/bob@x.org'')]),
      (''reviewers'',
         JList [JDict [(''name'', JStr ''carl''), (''email'', JStr ''carl''),
                       (''avatar'', JStr ''https://www.gravatar.com/avatar/carl'')]]),
      (''changes_size'', JInt 0),
      (''uplift'',
         JDict [(''id'', JInt 7),
                (''author'',
                   JDict [(''name'', JStr ''dora''), (''email'', JStr ''dora''),
                          (''avatar'', JStr ''https://www.gravatar.com/avatar/dora'')]),
                (''comment'', JStr ''please'')]),
      (''patches'', JDict []),
      (''versions'',
         JDict [(''beta +'',
                   JDict [(''name'', JStr ''approval-mozilla-beta''),
                          (''attachments'', JList [JStr ''42'', JStr ''43'']),
                          (''status'', JStr ''+'')])])]"

text \<open>An analysis of two bugs, the second one without a stored payload.\<close>

definition ex_analysis :: analysis where
  "ex_analysis = \<lparr>analysis_id = JInt 3, analysis_name = JStr ''dev'', parameters = JNull,
                   bugs = [ex_bug, ex_bug\<lparr>bug_id := JInt 2, payload := JNull\<rparr>]\<rparr>"

text \<open>A bug whose analysis has an uplift comment and an uplift author, the author being
  the empty string; it has no attachments.\<close>

definition uplift_cex_analysis :: "(string \<times> json) list" where
  "uplift_cex_analysis =
     [(''users'',
         JDict [(''creator'', JStr ''ann@x.org''),
                (''assignee'', JStr ''bob@x.org''),
                (''reviewers'', JList [])]),
      (''uplift_comment'', JDict [(''id'', JInt 7), (''text'', JStr ''please'')]),
      (''uplift_author'', JStr ''''),
      (''patches'', JDict [])]"

definition uplift_cex_payload :: "(string \<times> json) list" where
  "uplift_cex_payload =
     [(''bug'', JDict [(''summary'', JStr ''No author''), (''keywords'', JList [])]),
      (''analysis'', JDict uplift_cex_analysis)]"

definition uplift_cex_bug :: bug where
  "uplift_cex_bug = \<lparr>bug_id = JInt 5, bugzilla_id = JInt 77, payload = JStr ''x'',
                      payload_data = JDict uplift_cex_payload\<rparr>"

definition uplift_cex_out :: "(string \<times> json) list" where
  "uplift_cex_out =
     [(''id'', JInt 5),
      (''bugzilla_id'', JInt 77),
      (''url'', JStr ''https://bugzil.la/77''),
      (''summary'', JStr ''No author''),
      (''keywords'', JList []),
      (''flags_status'', JDict []),
      (''flags_tracking'', JDict []),
      (''creator'',
         JDict [(''email'', JStr ''ann@x.org''), (''real_name'', JStr ''ann@x.org''),
                (''avatar'', JStr ''https://www.gravatar.com/avatar/ann@x.org'')]),
      (''assignee'',
         JDict [(''email'', JStr ''bob@x.org''), (''real_name'', JStr ''bob@x.org''),
                (''avatar'', JStr ''https://www.gravatar.com/avatar/bob@x.org'')]),
      (''reviewers'', JList []),
      (''changes_size'', JInt 0),
      (''uplift'', JNull),
      (''patches'', JDict []),
      (''versions'', JDict [])]"

text \<open>A bug without attachments and without an uplift request, whose payload has a
  \<^verbatim>\<open>url\<close>.\<close>

definition plain_bug_data :: "(string \<times> json) list" where
  "plain_bug_data = [(''summary'', JStr ''Plain''), (''keywords'', JList [JStr ''perf''])]"

definition plain_analysis_data :: "(string \<times> json) list" where
  "plain_analysis_data =
     [(''users'',
         JDict [(''creator'', JStr ''ann@x.org''),
                (''assignee'', JStr ''bob@x.org''),
                (''reviewers'', JList [])]),
      (''changes_size'', JInt 12),
      (''patches'', JDict [])]"

definition plain_payload :: "(string \<times> json) list" where
  "plain_payload =
     [(''url'', JStr ''https://example.org/88''),
      (''bug'', JDict plain_bug_data),
      (''analysis'', JDict plain_analysis_data)]"

definition plain_bug :: bug where
  "plain_bug = \<lparr>bug_id = JInt 6, bugzilla_id = JInt 88, payload = JStr ''x'',
                 payload_data = JDict plain_payload\<rparr>"

definition plain_bug_out :: "(string \<times> json) list" where
  "plain_bug_out =
     [(''id'', JInt 6),
      (''bugzilla_id'', JInt 88),
      (''url'', JStr ''https://example.org/88''),
      (''summary'', JStr ''Plain''),
      (''keywords'', JList [JStr ''perf'']),
      (''flags_status'', JDict []),
      (''flags_tracking'', JDict []),
      (''creator'',
         JDict [(''email'', JStr ''ann@x.org''), (''real_name'', JStr ''ann@x.org''),
                (''avatar'', JStr ''https://www.gravatar.com/avatar/ann@x.org'')]),
      (''assignee'',
         JDict [(''email'', JStr ''bob@x.org''), (''real_name'', JStr ''bob@x.org''),
                (''avatar'', JStr ''https://www.gravatar.com/avatar/bob@x.org'')]),
      (''reviewers'', JList []),
      (''changes_size'', JInt 12),
      (''uplift'', JNull),
      (''patches'', JDict []),
      (''versions'', JDict [])]"

text \<open>A bug whose second attachment has a flag in which the approval prefix occurs
  twice.\<close>

definition twice_flag :: json where
  "twice_flag = JDict [(''name'', JStr ''approval-mozilla-approval-mozilla-beta''),
                       (''status'', JStr ''+'')]"

definition twice_bug_data :: "(string \<times> json) list" where
  "twice_bug_data =
     [(''summary'', JStr ''Twice''),
      (''keywords'', JList []),
      (''attachments'',
         JList [JDict [(''id'', JInt 42), (''flags'', JList [flag_beta])],
                JDict [(''id'', JInt 43), (''flags'', JList [twice_flag])]])]"

text \<open>A bug without attachments whose analysis has no \<^verbatim>\<open>patches\<close>.\<close>

definition no_patches_analysis :: "(string \<times> json) list" where
  "no_patches_analysis =
     [(''users'',
         JDict [(''creator'', JStr ''ann@x.org''),
                (''assignee'', JStr ''bob@x.org''),
                (''reviewers'', JList [])])]"

definition no_patches_payload :: "(string \<times> json) list" where
  "no_patches_payload =
     [(''bug'', JDict plain_bug_data), (''analysis'', JDict no_patches_analysis)]"

definition no_patches_bug :: bug where
  "no_patches_bug = \<lparr>bug_id = JInt 8, bugzilla_id = JInt 99, payload = JStr ''x'',
                      payload_data = JDict no_patches_payload\<rparr>"

section \<open>Basic facts\<close>

lemma bindE_Inl [simp]: "bindE (Inl e) f = Inl e"
  by (simp add: bindE_def)

lemma bindE_Inr [simp]: "bindE (Inr x) f = f x"
  by (simp add: bindE_def)

lemma bindE_eq_Inr: "bindE m f = Inr y \<longleftrightarrow> (\<exists>x. m = Inr x \<and> f x = Inr y)"
  by (cases m) simp_all

lemma py_get_JDict [simp]:
  "py_get (JDict kvs) k d = Inr (case map_of kvs k of Some v \<Rightarrow> v | None \<Rightarrow> d)"
  by (simp add: py_get_def)

lemma py_get_not_dict: "\<forall>kvs. d \<noteq> JDict kvs \<Longrightarrow> py_get d k dflt = Inl AttributeError"
  by (cases d) (simp_all add: py_get_def)

lemma Inr_eq_bindE: "Inr y = bindE m f \<longleftrightarrow> (\<exists>x. m = Inr x \<and> f x = Inr y)"
  by (cases m) auto

lemma getitem_JDict [simp]:
  "getitem (JDict kvs) k = (case map_of kvs k of Some v \<Rightarrow> Inr v | None \<Rightarrow> Inl (KeyError k))"
  by (simp add: getitem_def)

lemma getitem_not_dict: "\<forall>kvs. d \<noteq> JDict kvs \<Longrightarrow> getitem d k = Inl TypeError"
  by (cases d) (simp_all add: getitem_def)

text \<open>The example bug and its serialized form.\<close>

lemma ex_bug_serialized: "serialize_bug toy_builtins ex_bug = Inr (JDict ex_bug_out)"
  by code_simp

lemma uplift_cex_bug_serialized:
  "serialize_bug toy_builtins uplift_cex_bug = Inr (JDict uplift_cex_out)"
  by code_simp

lemma plain_bug_serialized: "serialize_bug toy_builtins plain_bug = Inr (JDict plain_bug_out)"
  by code_simp

section \<open>Where exceptions are raised\<close>

text \<open>No step of the serializers but the two checks of \<^verbatim>\<open>serialize_bug\<close> raises an
  exception of its own; everything else can only fault.\<close>

lemma no_raise_Inr [simp]: "no_raise (Inr x)"
  by (simp add: no_raise_def)

lemma no_raise_Inl [simp]: "no_raise (Inl e) = (\<not> is_exception e)"
  by (simp add: no_raise_def)

lemma no_raise_bindE: "no_raise m \<Longrightarrow> (\<And>x. no_raise (f x)) \<Longrightarrow> no_raise (bindE m f)"
  by (cases m) simp_all

lemma no_raise_if: "(c \<Longrightarrow> no_raise a) \<Longrightarrow> (\<not> c \<Longrightarrow> no_raise b) \<Longrightarrow> no_raise (if c then a else b)"
  by simp

lemma no_raise_getitem: "no_raise (getitem d k)"
  by (cases d) (simp_all add: getitem_def split: option.splits)

lemma no_raise_py_get: "no_raise (py_get d k x)"
  by (cases d) (simp_all add: py_get_def)

lemma no_raise_py_iter: "no_raise (py_iter v)"
  by (cases v) (simp_all add: py_iter_def)

lemma no_raise_py_in: "no_raise (py_in k v)"
  by (cases v) (simp_all add: py_in_def)

lemma no_raise_as_str: "no_raise (as_str v)"
  by (cases v) (simp_all add: as_str_def)

lemma no_raise_normalized_email: "no_raise (normalized_email v)"
  by (cases v) (simp_all add: normalized_email_def)

lemma no_raise_user_dict: "no_raise (user_dict u)"
proof (cases u)
  case (JDict out)
  show ?thesis
    unfolding user_dict_def JDict json.case
    by (intro no_raise_if no_raise_bindE no_raise_getitem no_raise_Inr)
qed (simp_all add: user_dict_def)

lemma no_raise_serialize_user: "no_raise (serialize_user B u)"
  unfolding serialize_user_def
  by (intro no_raise_bindE no_raise_user_dict no_raise_getitem no_raise_normalized_email
      no_raise_Inr)

lemma no_raise_serialize_users: "no_raise (serialize_users B us)"
  by (induction us) (auto intro!: no_raise_bindE no_raise_serialize_user)

lemma no_raise_build_uplift: "no_raise (build_uplift B an)"
  unfolding build_uplift_def
  by (intro no_raise_bindE no_raise_if no_raise_py_get no_raise_getitem no_raise_py_in
      no_raise_serialize_user no_raise_Inr)

lemma no_raise_version_flag: "no_raise (version_flag B a vs f)"
  unfolding version_flag_def Let_def
  by (intro no_raise_bindE no_raise_if no_raise_getitem no_raise_as_str no_raise_Inr)
     (simp split: option.splits add: no_raise_bindE no_raise_getitem)

lemma no_raise_version_flags: "no_raise (version_flags B a vs fs)"
  by (induction fs arbitrary: vs) (auto intro!: no_raise_bindE no_raise_version_flag)

lemma no_raise_version_attachments_loop: "no_raise (version_attachments_loop B vs as)"
  by (induction as arbitrary: vs)
     (auto intro!: no_raise_bindE no_raise_getitem no_raise_py_iter no_raise_version_flags)

lemma no_raise_build_versions: "no_raise (build_versions B bd)"
  unfolding build_versions_def
  by (intro no_raise_bindE no_raise_py_get no_raise_py_iter no_raise_version_attachments_loop
      no_raise_Inr)

lemma no_raise_filter_flags: "no_raise (filter_flags bd base)"
  by (cases bd) (simp_all add: filter_flags_def)

lemma no_raise_bug_fields: "no_raise (bug_fields B b pv bd an up vs)"
  unfolding bug_fields_def
  by (intro no_raise_bindE no_raise_py_get no_raise_getitem no_raise_filter_flags
      no_raise_serialize_user no_raise_py_iter no_raise_serialize_users no_raise_Inr)

lemma no_raise_D: "no_raise r \<Longrightarrow> r \<noteq> Inl (Exception m)"
  by (cases r) auto

lemma serialize_bug_exception_iff:
  "serialize_bug B b = Inl (Exception m) \<longleftrightarrow>
     (\<not> truthy (payload_data b) \<and> m = ''Missing payload'')
     \<or> (\<exists>p. payload_data b = JDict p \<and> p \<noteq> [] \<and> m = ''Missing Bug data or Analysis'' \<and>
           (\<not> truthy (case map_of p ''bug'' of Some v \<Rightarrow> v | None \<Rightarrow> JNull)
            \<or> \<not> truthy (case map_of p ''analysis'' of Some v \<Rightarrow> v | None \<Rightarrow> JNull)))"
proof (cases "truthy (payload_data b)")
  case False
  then show ?thesis
    by (cases "payload_data b") (auto simp: serialize_bug_def)
next
  case True
  show ?thesis
  proof (cases "\<exists>p. payload_data b = JDict p")
    case False
    then have "py_get (payload_data b) ''bug'' JNull = Inl AttributeError"
      by (simp add: py_get_not_dict)
    with True False show ?thesis
      by (auto simp: serialize_bug_def Let_def)
  next
    case dict: True
    then obtain p where p: "payload_data b = JDict p" by auto
    with True have ne: "p \<noteq> []" by simp
    let ?bd = "case map_of p ''bug'' of Some v \<Rightarrow> v | None \<Rightarrow> JNull"
    let ?an = "case map_of p ''analysis'' of Some v \<Rightarrow> v | None \<Rightarrow> JNull"
    show ?thesis
    proof (cases "\<not> truthy ?bd \<or> \<not> truthy ?an")
      case True
      with p ne show ?thesis
        by (auto simp: serialize_bug_def Let_def)
    next
      case False
      have "no_raise (bindE (build_uplift B ?an) (\<lambda>uplift.
              bindE (build_versions B ?bd) (\<lambda>versions.
              bug_fields B b (JDict p) ?bd ?an uplift versions)))"
        by (intro no_raise_bindE no_raise_build_uplift no_raise_build_versions
            no_raise_bug_fields)
      from no_raise_D [OF this, of m] False p ne show ?thesis
        by (simp add: serialize_bug_def Let_def)
    qed
  qed
qed

section \<open>The two explicit errors of \<^verbatim>\<open>serialize_bug\<close>\<close>

text \<open>
  Claim C1. \<^verbatim>\<open>serialize_bug\<close> raises when the bug's \<^verbatim>\<open>payload_data\<close> is empty or absent
  (any value that is not true, \<^verbatim>\<open>None\<close> and the empty dictionary among them), with the
  message \<^verbatim>\<open>Missing payload\<close>; it raises when the payload is a non-empty dictionary
  without the key \<^verbatim>\<open>bug\<close> or without the key \<^verbatim>\<open>analysis\<close>, with the message
  \<^verbatim>\<open>Missing Bug data or Analysis\<close>; and whatever the payload is, when it does not hold
  both keys the call ends in an exception: no result is produced. The message
  \<^verbatim>\<open>Missing payload\<close> comes exactly with a payload that is not true.
\<close>

theorem serialize_bug_missing:
  "(\<not> truthy (payload_data b) \<longrightarrow> serialize_bug B b = Inl (Exception ''Missing payload''))
   \<and> (payload_data b = JDict p \<and> p \<noteq> [] \<and>
        (map_of p ''bug'' = None \<or> map_of p ''analysis'' = None)
      \<longrightarrow> serialize_bug B b = Inl (Exception ''Missing Bug data or Analysis''))
   \<and> ((\<forall>p. payload_data b = JDict p \<longrightarrow> map_of p ''bug'' = None \<or> map_of p ''analysis'' = None)
      \<longrightarrow> (\<exists>e. serialize_bug B b = Inl e))
   \<and> (serialize_bug B b = Inl (Exception ''Missing payload'') \<longleftrightarrow> \<not> truthy (payload_data b))"
proof (intro conjI impI)
  assume "\<not> truthy (payload_data b)"
  then show "serialize_bug B b = Inl (Exception ''Missing payload'')"
    by (simp add: serialize_bug_def)
next
  assume "payload_data b = JDict p \<and> p \<noteq> [] \<and>
    (map_of p ''bug'' = None \<or> map_of p ''analysis'' = None)"
  then show "serialize_bug B b = Inl (Exception ''Missing Bug data or Analysis'')"
    by (auto simp: serialize_bug_def)
next
  assume h: "\<forall>p. payload_data b = JDict p \<longrightarrow> map_of p ''bug'' = None \<or> map_of p ''analysis'' = None"
  show "\<exists>e. serialize_bug B b = Inl e"
  proof (cases "\<exists>p. payload_data b = JDict p")
    case True
    then obtain p where p: "payload_data b = JDict p" by auto
    with h have "map_of p ''bug'' = None \<or> map_of p ''analysis'' = None" by simp
    with p show ?thesis by (cases "p = []") (auto simp: serialize_bug_def Let_def)
  next
    case False
    then have "py_get (payload_data b) ''bug'' JNull = Inl AttributeError"
      by (simp add: py_get_not_dict)
    then show ?thesis by (simp add: serialize_bug_def Let_def)
  qed
next
  show "serialize_bug B b = Inl (Exception ''Missing payload'') \<longleftrightarrow> \<not> truthy (payload_data b)"
    by (simp add: serialize_bug_exception_iff)
qed

theorem serialize_bug_missing_witness:
  "serialize_bug toy_builtins
     \<lparr>bug_id = JInt 1, bugzilla_id = JInt 1234, payload = JNull, payload_data = JNull\<rparr>
     = Inl (Exception ''Missing payload'')
   \<and> serialize_bug toy_builtins
     \<lparr>bug_id = JInt 1, bugzilla_id = JInt 1234, payload = JNull, payload_data = JDict []\<rparr>
     = Inl (Exception ''Missing payload'')
   \<and> serialize_bug toy_builtins
     \<lparr>bug_id = JInt 1, bugzilla_id = JInt 1234, payload = JStr ''x'',
      payload_data = JDict [(''bug'', JDict [(''summary'', JStr ''A bug'')])]\<rparr>
     = Inl (Exception ''Missing Bug data or Analysis'')
   \<and> (\<exists>e. serialize_bug toy_builtins
     \<lparr>bug_id = JInt 1, bugzilla_id = JInt 1234, payload = JStr ''x'',
      payload_data = JStr ''bug''\<rparr> = Inl e)"
  using
    serialize_bug_missing [of "\<lparr>bug_id = JInt 1, bugzilla_id = JInt 1234, payload = JNull,
      payload_data = JNull\<rparr>" toy_builtins]
    serialize_bug_missing [of "\<lparr>bug_id = JInt 1, bugzilla_id = JInt 1234, payload = JNull,
      payload_data = JDict []\<rparr>" toy_builtins]
    serialize_bug_missing [of "\<lparr>bug_id = JInt 1, bugzilla_id = JInt 1234, payload = JStr ''x'',
      payload_data = JDict [(''bug'', JDict [(''summary'', JStr ''A bug'')])]\<rparr>" toy_builtins
      "[(''bug'', JDict [(''summary'', JStr ''A bug'')])]"]
    serialize_bug_missing [of "\<lparr>bug_id = JInt 1, bugzilla_id = JInt 1234, payload = JStr ''x'',
      payload_data = JStr ''bug''\<rparr>" toy_builtins]
  by simp

text \<open>
  Claim C9. The second check is on the truth value, not on the presence of the key: a
  payload in which \<^verbatim>\<open>bug\<close> or \<^verbatim>\<open>analysis\<close> is present with a value that is not true
  (the empty dictionary, \<^verbatim>\<open>None\<close>, an empty list or string, zero, \<^verbatim>\<open>False\<close>) raises
  \<^verbatim>\<open>Missing Bug data or Analysis\<close> as well. That exception is raised exactly when the
  payload is a non-empty dictionary in which the value of \<^verbatim>\<open>bug\<close> or of \<^verbatim>\<open>analysis\<close>,
  \<^verbatim>\<open>None\<close> for a missing key, is not true.
\<close>

theorem serialize_bug_falsy_substructure:
  "(payload_data b = JDict p \<and>
      ((\<exists>v. map_of p ''bug'' = Some v \<and> \<not> truthy v)
       \<or> (\<exists>v. map_of p ''analysis'' = Some v \<and> \<not> truthy v))
    \<longrightarrow> serialize_bug B b = Inl (Exception ''Missing Bug data or Analysis''))
   \<and> (serialize_bug B b = Inl (Exception ''Missing Bug data or Analysis'')
      \<longleftrightarrow> (\<exists>q. payload_data b = JDict q \<and> q \<noteq> [] \<and>
             (\<not> truthy (case map_of q ''bug'' of Some v \<Rightarrow> v | None \<Rightarrow> JNull)
              \<or> \<not> truthy (case map_of q ''analysis'' of Some v \<Rightarrow> v | None \<Rightarrow> JNull))))"
proof (intro conjI impI)
  assume h: "payload_data b = JDict p \<and>
      ((\<exists>v. map_of p ''bug'' = Some v \<and> \<not> truthy v)
       \<or> (\<exists>v. map_of p ''analysis'' = Some v \<and> \<not> truthy v))"
  then have "p \<noteq> []" by auto
  with h show "serialize_bug B b = Inl (Exception ''Missing Bug data or Analysis'')"
    by (auto simp: serialize_bug_def split: option.splits)
next
  show "serialize_bug B b = Inl (Exception ''Missing Bug data or Analysis'')
      \<longleftrightarrow> (\<exists>q. payload_data b = JDict q \<and> q \<noteq> [] \<and>
             (\<not> truthy (case map_of q ''bug'' of Some v \<Rightarrow> v | None \<Rightarrow> JNull)
              \<or> \<not> truthy (case map_of q ''analysis'' of Some v \<Rightarrow> v | None \<Rightarrow> JNull)))"
    by (simp add: serialize_bug_exception_iff)
qed

theorem serialize_bug_falsy_substructure_witness:
  "serialize_bug toy_builtins
     \<lparr>bug_id = JInt 1, bugzilla_id = JInt 1234, payload = JStr ''x'',
      payload_data = JDict [(''bug'', JDict []),
                            (''analysis'', JDict [(''patches'', JDict [])])]\<rparr>
     = Inl (Exception ''Missing Bug data or Analysis'')
   \<and> serialize_bug toy_builtins
     \<lparr>bug_id = JInt 1, bugzilla_id = JInt 1234, payload = JStr ''x'',
      payload_data = JDict [(''bug'', JDict [(''summary'', JStr ''A bug'')]),
                            (''analysis'', JDict [])]\<rparr>
     = Inl (Exception ''Missing Bug data or Analysis'')"
  using
    serialize_bug_falsy_substructure [of "\<lparr>bug_id = JInt 1, bugzilla_id = JInt 1234,
      payload = JStr ''x'',
      payload_data = JDict [(''bug'', JDict []),
                            (''analysis'', JDict [(''patches'', JDict [])])]\<rparr>"
      "[(''bug'', JDict []), (''analysis'', JDict [(''patches'', JDict [])])]" toy_builtins]
    serialize_bug_falsy_substructure [of "\<lparr>bug_id = JInt 1, bugzilla_id = JInt 1234,
      payload = JStr ''x'',
      payload_data = JDict [(''bug'', JDict [(''summary'', JStr ''A bug'')]),
                            (''analysis'', JDict [])]\<rparr>"
      "[(''bug'', JDict [(''summary'', JStr ''A bug'')]), (''analysis'', JDict [])]" toy_builtins]
  by simp

section \<open>Users\<close>

lemma map_of_dict_set: "map_of (dict_set kvs k v) k' = (if k' = k then Some v else map_of kvs k')"
  by (induction kvs) auto

lemma key_in_iff: "k \<in> fst ` set kvs \<longleftrightarrow> map_of kvs k \<noteq> None"
  by (simp add: map_of_eq_None_iff)

lemma keys_dict_set: "fst ` set (dict_set kvs k v) = insert k (fst ` set kvs)"
  by (rule set_eqI) (auto simp: key_in_iff map_of_dict_set)

lemma normalized_email_Inr: "normalized_email e = Inr s \<longleftrightarrow> (\<exists>t. e = JStr t \<and> s = lower (strip t))"
  by (cases e) (auto simp: normalized_email_def)

lemma user_dict_JDict:
  "user_dict (JDict kvs) =
     (case map_of kvs ''email'' of
        Some e \<Rightarrow> Inr kvs
      | None \<Rightarrow> (case map_of kvs ''name'' of
                   Some n \<Rightarrow> Inr (dict_set kvs ''email'' n)
                 | None \<Rightarrow> Inl (KeyError ''name'')))"
  by (auto simp: user_dict_def key_in_iff split: option.splits)

lemma user_dict_email:
  assumes "user_dict user = Inr out"
  shows "\<exists>e. map_of out ''email'' = Some e"
proof (cases user)
  case (JDict kvs)
  with assms show ?thesis
    by (auto simp: user_dict_JDict map_of_dict_set split: option.splits)
qed (use assms in \<open>auto simp: user_dict_def\<close>)

lemma is_str_iff: "is_str v \<longleftrightarrow> (\<exists>s. v = JStr s)"
  by (cases v) simp_all

text \<open>What a successful call returns: the dictionary of lines 9 to 17 with the avatar
  stored under \<^verbatim>\<open>avatar\<close>.\<close>

lemma serialize_user_Inr:
  "serialize_user B user = Inr out \<longleftrightarrow>
     (\<exists>d e. user_dict user = Inr d \<and> map_of d ''email'' = Some (JStr e) \<and>
        out = JDict (dict_set d ''avatar'' (JStr (gravatar B (lower (strip e))))))"
  by (auto simp: serialize_user_def bindE_eq_Inr normalized_email_Inr split: option.splits)

lemma serialize_user_succeeds: "(\<exists>out. serialize_user B user = Inr out) \<longleftrightarrow> valid_user user"
  by (cases user)
    (auto simp: serialize_user_Inr valid_user_def user_dict_def key_in_iff map_of_dict_set is_str_iff
      split: option.splits)

text \<open>
  The source stores \<^verbatim>\<open>email\<close> and \<^verbatim>\<open>avatar\<close> in the dictionary it was given and returns
  that dictionary. Serializing a result again gives the same result, so a user object
  that a payload holds in two places is serialized to the same value in both.
\<close>

lemma dict_set_same [simp]: "dict_set (dict_set kvs k v) k w = dict_set kvs k w"
  by (induction kvs) auto

lemma serialize_user_again:
  assumes "serialize_user B user = Inr out"
  shows "serialize_user B out = Inr out"
proof -
  from assms obtain d e where d: "map_of d ''email'' = Some (JStr e)"
    and out: "out = JDict (dict_set d ''avatar'' (JStr (gravatar B (lower (strip e)))))"
    by (auto simp: serialize_user_Inr)
  let ?d = "dict_set d ''avatar'' (JStr (gravatar B (lower (strip e))))"
  from d have "map_of ?d ''email'' = Some (JStr e)"
    by (simp add: map_of_dict_set)
  then have u: "user_dict (JDict ?d) = Inr ?d" and m: "map_of ?d ''email'' = Some (JStr e)"
    by (simp_all add: user_dict_JDict)
  have "serialize_user B (JDict ?d)
      = Inr (JDict (dict_set ?d ''avatar'' (JStr (gravatar B (lower (strip e))))))"
    unfolding serialize_user_Inr
    by (rule exI [of _ ?d], rule exI [of _ e], intro conjI u m refl)
  with out show ?thesis by simp
qed

text \<open>
  Claim C6. For a user given as a dictionary without \<^verbatim>\<open>email\<close>, the output's \<^verbatim>\<open>email\<close> is
  the input's \<^verbatim>\<open>name\<close>; every output is a dictionary that has the keys \<^verbatim>\<open>email\<close> and
  \<^verbatim>\<open>avatar\<close>; and the valid users are exactly those for which the call returns.
\<close>

theorem serialize_user_email_avatar:
  "(user = JDict kvs \<and> map_of kvs ''email'' = None \<and> serialize_user B user = Inr out
      \<longrightarrow> (\<exists>d n. out = JDict d \<and> map_of kvs ''name'' = Some n \<and> map_of d ''email'' = Some n))
   \<and> (serialize_user B user = Inr out
      \<longrightarrow> (\<exists>d. out = JDict d \<and> ''email'' \<in> set (map fst d) \<and> ''avatar'' \<in> set (map fst d)))
   \<and> (valid_user user \<longleftrightarrow> (\<exists>res. serialize_user B user = Inr res))"
proof (intro conjI impI)
  assume h: "user = JDict kvs \<and> map_of kvs ''email'' = None \<and> serialize_user B user = Inr out"
  then obtain d e where d: "user_dict (JDict kvs) = Inr d" "map_of d ''email'' = Some (JStr e)"
    and out: "out = JDict (dict_set d ''avatar'' (JStr (gravatar B (lower (strip e)))))"
    by (auto simp: serialize_user_Inr)
  from h d obtain n where n: "map_of kvs ''name'' = Some n" "d = dict_set kvs ''email'' n"
    by (auto simp: user_dict_JDict split: option.splits)
  with d have "n = JStr e" by (simp add: map_of_dict_set)
  with n out d show "\<exists>d n. out = JDict d \<and> map_of kvs ''name'' = Some n \<and> map_of d ''email'' = Some n"
    by (simp add: map_of_dict_set)
next
  assume "serialize_user B user = Inr out"
  then obtain d e where d: "user_dict user = Inr d" "map_of d ''email'' = Some (JStr e)"
    and out: "out = JDict (dict_set d ''avatar'' (JStr (gravatar B (lower (strip e)))))"
    by (auto simp: serialize_user_Inr)
  from d(2) have "''email'' \<in> fst ` set d"
    by (simp add: key_in_iff)
  with out show "\<exists>d. out = JDict d \<and> ''email'' \<in> set (map fst d) \<and> ''avatar'' \<in> set (map fst d)"
    by (simp add: keys_dict_set)
next
  show "valid_user user = (\<exists>res. serialize_user B user = Inr res)"
    by (simp add: serialize_user_succeeds)
qed

theorem serialize_user_email_avatar_witness:
  "map_of [(''name'', JStr ''dora'')] ''email'' = None
   \<and> map_of [(''name'', JStr ''dora'')] ''name'' = Some (JStr ''dora'')
   \<and> valid_user (JDict [(''name'', JStr ''dora'')])
   \<and> serialize_user toy_builtins (JDict [(''name'', JStr ''dora'')])
       = Inr (JDict [(''name'', JStr ''dora''), (''email'', JStr ''dora''),
                     (''avatar'', JStr ''https://www.gravatar.com/avatar/dora'')])"
proof -
  let ?u = "JDict [(''name'', JStr ''dora'')]"
  have "valid_user ?u"
    by (simp add: valid_user_def)
  with serialize_user_email_avatar [of ?u "[(''name'', JStr ''dora'')]" toy_builtins]
  obtain res where res: "serialize_user toy_builtins ?u = Inr res"
    by auto
  with serialize_user_email_avatar [of ?u "[(''name'', JStr ''dora'')]" toy_builtins res]
  obtain d where "res = JDict d" "map_of d ''email'' = Some (JStr ''dora'')"
    by auto
  have "serialize_user toy_builtins ?u
       = Inr (JDict [(''name'', JStr ''dora''), (''email'', JStr ''dora''),
                     (''avatar'', JStr ''https://www.gravatar.com/avatar/dora'')])"
    by code_simp
  with \<open>valid_user ?u\<close> show ?thesis by simp
qed

section \<open>The avatar\<close>

lemma isspace_lower_char [simp]: "isspace (lower_char c) = isspace c"
  by (auto simp: isspace_def lower_char_def Let_def)

lemma strip_lower: "strip (lower s) = lower (strip s)"
  by (simp add: strip_def lower_def dropWhile_map rev_map comp_def)

lemma dropWhile_pad:
  assumes "\<forall>c\<in>set ws. P c"
  shows "dropWhile P (rev ws @ xs) = dropWhile P xs"
  using assms by (intro dropWhile_append2) simp

lemma dropWhile_all: "\<forall>c\<in>set xs. P c \<Longrightarrow> dropWhile P xs = []"
  by (induction xs) simp_all

lemma strip_padding:
  assumes "list_all isspace ws" and "list_all isspace ws'"
  shows "strip (ws @ s @ ws') = strip s"
proof -
  from assms have a: "\<forall>c\<in>set ws. isspace c" and b: "\<forall>c\<in>set ws'. isspace c"
    by (simp_all add: list_all_iff)
  from a have "dropWhile isspace (ws @ s @ ws') = dropWhile isspace (s @ ws')"
    by (simp add: dropWhile_append2)
  moreover have "rev (dropWhile isspace (rev (dropWhile isspace (s @ ws'))))
    = rev (dropWhile isspace (rev (dropWhile isspace s)))"
  proof (cases "\<forall>c\<in>set s. isspace c")
    case True
    then have "dropWhile isspace s = []"
      by (rule dropWhile_all)
    moreover from True b have "\<forall>c\<in>set (s @ ws'). isspace c"
      by auto
    then have "dropWhile isspace (s @ ws') = []"
      by (rule dropWhile_all)
    ultimately show ?thesis by (simp only:)
  next
    case False
    then have "dropWhile isspace (s @ ws') = dropWhile isspace s @ ws'"
      by (auto simp: dropWhile_append1)
    with b show ?thesis by (simp add: dropWhile_pad)
  qed
  ultimately show ?thesis by (simp add: strip_def)
qed


lemma normal_form_insensitive:
  assumes "list_all isspace ws1" "list_all isspace ws1'"
    and "list_all isspace ws2" "list_all isspace ws2'"
    and "lower e1 = lower e2"
  shows "lower (strip (ws1 @ e1 @ ws1')) = lower (strip (ws2 @ e2 @ ws2'))"
proof -
  have "lower (strip (ws1 @ e1 @ ws1')) = strip (lower e1)"
    using assms(1,2) by (simp add: strip_padding strip_lower)
  also have "\<dots> = strip (lower e2)"
    using assms(5) by simp
  also have "\<dots> = lower (strip (ws2 @ e2 @ ws2'))"
    using assms(3,4) by (simp add: strip_padding strip_lower)
  finally show ?thesis .
qed

lemma serialize_user_avatar:
  assumes "serialize_user B user = Inr out"
  shows "\<exists>d e. out = JDict d \<and> map_of d ''email'' = Some (JStr e) \<and>
     map_of d ''avatar'' = Some (JStr (gravatar B (lower (strip e))))"
  using assms by (auto simp: serialize_user_Inr map_of_dict_set)

text \<open>
  Claim C7. The avatar of every output is the gravatar address followed by the
  hexadecimal MD5 digest of the output's email, stripped and in lower case; so two users
  whose emails are equal up to case and up to white space around them get the same
  avatar, as \<^verbatim>\<open>"Foo@Bar.com "\<close> and \<^verbatim>\<open>"foo@bar.com"\<close> do.
\<close>

theorem avatar_deterministic:
  "(serialize_user B user = Inr out \<longrightarrow>
      (\<exists>d e. out = JDict d \<and> map_of d ''email'' = Some (JStr e) \<and>
         map_of d ''avatar''
           = Some (JStr (''https://www.gravatar.com/avatar/'' @ md5_hexdigest B (lower (strip e))))))
   \<and> (serialize_user B u1 = Inr (JDict d1) \<and> serialize_user B u2 = Inr (JDict d2) \<and>
       map_of d1 ''email'' = Some (JStr (ws1 @ e1 @ ws1')) \<and>
       map_of d2 ''email'' = Some (JStr (ws2 @ e2 @ ws2')) \<and>
       list_all isspace ws1 \<and> list_all isspace ws1' \<and>
       list_all isspace ws2 \<and> list_all isspace ws2' \<and> lower e1 = lower e2
      \<longrightarrow> map_of d1 ''avatar'' = map_of d2 ''avatar'')"
proof (intro conjI impI)
  assume "serialize_user B user = Inr out"
  from serialize_user_avatar [OF this]
  show "\<exists>d e. out = JDict d \<and> map_of d ''email'' = Some (JStr e) \<and>
         map_of d ''avatar''
           = Some (JStr (''https://www.gravatar.com/avatar/'' @ md5_hexdigest B (lower (strip e))))"
    by (simp add: gravatar_def)
next
  assume h: "serialize_user B u1 = Inr (JDict d1) \<and> serialize_user B u2 = Inr (JDict d2) \<and>
       map_of d1 ''email'' = Some (JStr (ws1 @ e1 @ ws1')) \<and>
       map_of d2 ''email'' = Some (JStr (ws2 @ e2 @ ws2')) \<and>
       list_all isspace ws1 \<and> list_all isspace ws1' \<and>
       list_all isspace ws2 \<and> list_all isspace ws2' \<and> lower e1 = lower e2"
  then have n: "lower (strip (ws1 @ e1 @ ws1')) = lower (strip (ws2 @ e2 @ ws2'))"
    by (intro normal_form_insensitive) simp_all
  from h serialize_user_avatar [of B u1 "JDict d1"]
  have a1: "map_of d1 ''avatar'' = Some (JStr (gravatar B (lower (strip (ws1 @ e1 @ ws1')))))"
    by auto
  from h serialize_user_avatar [of B u2 "JDict d2"]
  have a2: "map_of d2 ''avatar'' = Some (JStr (gravatar B (lower (strip (ws2 @ e2 @ ws2')))))"
    by auto
  from a1 a2 n show "map_of d1 ''avatar'' = map_of d2 ''avatar''"
    by simp
qed

theorem avatar_deterministic_witness:
  "serialize_user toy_builtins (JStr ''Foo@Bar.com '')
     = Inr (JDict [(''email'', JStr ''Foo@Bar.com ''), (''real_name'', JStr ''Foo@Bar.com ''),
                   (''avatar'', JStr ''https://www.gravatar.com/avatar/foo@bar.com'')])
   \<and> serialize_user toy_builtins (JStr ''foo@bar.com'')
     = Inr (JDict [(''email'', JStr ''foo@bar.com''), (''real_name'', JStr ''foo@bar.com''),
                   (''avatar'', JStr ''https://www.gravatar.com/avatar/foo@bar.com'')])
   \<and> list_all isspace '' '' \<and> lower ''Foo@Bar.com'' = lower ''foo@bar.com''
   \<and> map_of [(''email'', JStr ''Foo@Bar.com ''), (''real_name'', JStr ''Foo@Bar.com ''),
              (''avatar'', JStr ''https://www.gravatar.com/avatar/foo@bar.com'')] ''avatar''
     = map_of [(''email'', JStr ''foo@bar.com''), (''real_name'', JStr ''foo@bar.com''),
              (''avatar'', JStr ''https://www.gravatar.com/avatar/foo@bar.com'')] ''avatar''"
proof -
  let ?d1 = "[(''email'', JStr ''Foo@Bar.com ''), (''real_name'', JStr ''Foo@Bar.com ''),
              (''avatar'', JStr ''https://www.gravatar.com/avatar/foo@bar.com'')]"
  let ?d2 = "[(''email'', JStr ''foo@bar.com''), (''real_name'', JStr ''foo@bar.com''),
              (''avatar'', JStr ''https://www.gravatar.com/avatar/foo@bar.com'')]"
  have s1: "serialize_user toy_builtins (JStr ''Foo@Bar.com '') = Inr (JDict ?d1)"
    by code_simp
  have s2: "serialize_user toy_builtins (JStr ''foo@bar.com'') = Inr (JDict ?d2)"
    by code_simp
  have sp: "list_all isspace '' ''"
    by code_simp
  have lo: "lower ''Foo@Bar.com'' = lower ''foo@bar.com''"
    by code_simp
  have "map_of ?d1 ''avatar'' = map_of ?d2 ''avatar''"
    using s1 s2 sp lo
      avatar_deterministic [of toy_builtins _ _ "JStr ''Foo@Bar.com ''" ?d1 "JStr ''foo@bar.com''" ?d2
        "[]" "''Foo@Bar.com''" "'' ''" "[]" "''foo@bar.com''" "[]"]
    by simp
  with s1 s2 sp lo show ?thesis by simp
qed

section \<open>The summary of an analysis\<close>

text \<open>
  Claim C4. Without \<^verbatim>\<open>full\<close> the call returns the empty list of bugs, and \<^verbatim>\<open>count\<close> is
  still the number of bugs of the analysis; with either value of \<^verbatim>\<open>full\<close>, a result has
  the analysis' \<^verbatim>\<open>id\<close>, \<^verbatim>\<open>name\<close> and \<^verbatim>\<open>parameters\<close> as they are, and that \<^verbatim>\<open>count\<close>.
\<close>

theorem serialize_analysis_summary:
  "serialize_analysis B a False
     = Inr (JDict [(''id'', analysis_id a), (''name'', analysis_name a),
                   (''count'', JInt (int (length (bugs a)))),
                   (''parameters'', parameters a), (''bugs'', JList [])])
   \<and> (serialize_analysis B a full = Inr out \<longrightarrow>
        (\<exists>d. out = JDict d \<and> map_of d ''id'' = Some (analysis_id a) \<and>
           map_of d ''name'' = Some (analysis_name a) \<and>
           map_of d ''count'' = Some (JInt (int (length (bugs a)))) \<and>
           map_of d ''parameters'' = Some (parameters a)))"
  by (cases full) (auto simp: serialize_analysis_def bindE_eq_Inr)

theorem serialize_analysis_summary_witness:
  "serialize_analysis toy_builtins ex_analysis True
     = Inr (JDict [(''id'', JInt 3), (''name'', JStr ''dev''), (''count'', JInt 2),
                   (''parameters'', JNull), (''bugs'', JList [JDict ex_bug_out])])
   \<and> serialize_analysis toy_builtins ex_analysis False
     = Inr (JDict [(''id'', JInt 3), (''name'', JStr ''dev''), (''count'', JInt 2),
                   (''parameters'', JNull), (''bugs'', JList [])])"
proof -
  let ?out = "JDict [(''id'', JInt 3), (''name'', JStr ''dev''), (''count'', JInt 2),
                     (''parameters'', JNull), (''bugs'', JList [JDict ex_bug_out])]"
  have full: "serialize_analysis toy_builtins ex_analysis True = Inr ?out"
    by (simp add: serialize_analysis_def ex_analysis_def ex_bug_serialized)
       (simp add: ex_bug_def serialize_bug_def)
  from serialize_analysis_summary [of toy_builtins ex_analysis True ?out] full
  show ?thesis
    by (simp add: ex_analysis_def)
qed

section \<open>The shape of a result of \<^verbatim>\<open>serialize_bug\<close>\<close>

text \<open>What a successful call of \<^verbatim>\<open>serialize_bug\<close> went through.\<close>

lemma serialize_bug_Inr:
  assumes "serialize_bug B b = Inr out"
  shows "\<exists>p bug_data analysis uplift versions.
     payload_data b = JDict p \<and> p \<noteq> [] \<and>
     bug_data = (case map_of p ''bug'' of Some v \<Rightarrow> v | None \<Rightarrow> JNull) \<and>
     analysis = (case map_of p ''analysis'' of Some v \<Rightarrow> v | None \<Rightarrow> JNull) \<and>
     truthy bug_data \<and> truthy analysis \<and>
     build_uplift B analysis = Inr uplift \<and>
     build_versions B bug_data = Inr versions \<and>
     bug_fields B b (JDict p) bug_data analysis uplift versions = Inr out"
proof (cases "payload_data b")
  case (JDict p)
  with assms show ?thesis
    by (auto simp: serialize_bug_def Let_def bindE_eq_Inr split: if_splits)
qed (use assms in \<open>auto simp: serialize_bug_def Let_def py_get_def split: if_splits\<close>)

lemma bug_fields_Inr:
  assumes "bug_fields B b pv bug_data analysis uplift versions = Inr out"
  shows "\<exists>url summary keywords fs ft creator assignee reviewers changes_size patches.
     filter_flags bug_data status_base_flag = Inr fs \<and>
     filter_flags bug_data tracking_base_flag = Inr ft \<and>
     out = JDict
       [(''id'', bug_id b),
        (''bugzilla_id'', bugzilla_id b),
        (''url'', url),
        (''summary'', summary),
        (''keywords'', keywords),
        (''flags_status'', fs),
        (''flags_tracking'', ft),
        (''creator'', creator),
        (''assignee'', assignee),
        (''reviewers'', JList reviewers),
        (''changes_size'', changes_size),
        (''uplift'', uplift),
        (''patches'', patches),
        (''versions'', versions)]"
  using assms unfolding bug_fields_def bindE_eq_Inr by blast

section \<open>The custom flags\<close>

lemma dict_set_new: "k \<notin> fst ` set kvs \<Longrightarrow> dict_set kvs k v = kvs @ [(k, v)]"
  by (induction kvs) auto

lemma foldl_dict_set_distinct:
  assumes "distinct (map fst (acc @ xs))"
  shows "foldl (\<lambda>d (k, v). dict_set d k v) acc xs = acc @ xs"
  using assms
proof (induction xs arbitrary: acc)
  case Nil
  then show ?case by simp
next
  case (Cons x xs)
  obtain k v where x: "x = (k, v)" by (cases x)
  with Cons.prems have "k \<notin> fst ` set acc" by auto
  then have "dict_set acc k v = acc @ [(k, v)]" by (rule dict_set_new)
  moreover from Cons.prems x have "distinct (map fst ((acc @ [(k, v)]) @ xs))" by simp
  ultimately show ?case using Cons.IH [of "acc @ [(k, v)]"] x by simp
qed

lemma py_dict_distinct: "distinct (map fst xs) \<Longrightarrow> py_dict xs = xs"
  using foldl_dict_set_distinct [of "[]" xs] by (simp add: py_dict_def)

lemma replace1_prefix: "prefix old s \<Longrightarrow> replace1 old new s = new @ drop (length old) s"
  by (cases s) auto

lemma drop_prefix_inj:
  assumes "prefix p k" "prefix p k'" "drop (length p) k = drop (length p) k'"
  shows "k = k'"
  using assms by (auto simp: prefix_def)

lemma distinct_stripped:
  assumes "distinct (map fst items)"
  shows "distinct (map fst (map (\<lambda>(k, v). (drop (length base) k, v))
           (filter (\<lambda>(k, v). prefix (base @ sfx) k) items)))"
proof -
  let ?xs = "filter (\<lambda>(k, v). prefix (base @ sfx) k) items"
  from assms have d: "distinct (map fst ?xs)"
    by (simp add: distinct_map_filter)
  have m: "map fst (map (\<lambda>(k, v). (drop (length base) k, v)) ?xs) = map (drop (length base)) (map fst ?xs)"
    by (simp add: case_prod_unfold)
  have inj: "inj_on (drop (length base)) (set (map fst ?xs))"
  proof (rule inj_onI)
    fix k k' assume "k \<in> set (map fst ?xs)" "k' \<in> set (map fst ?xs)"
      and e: "drop (length base) k = drop (length base) k'"
    then have "prefix (base @ sfx) k" "prefix (base @ sfx) k'" by auto
    then have "prefix base k" "prefix base k'" by (auto simp: prefix_def)
    with e drop_prefix_inj [of base k k'] show "k = k'" by simp
  qed
  have "distinct (map (drop (length base)) (map fst ?xs))"
    unfolding distinct_map [of "drop (length base)" "map fst ?xs"]
    using d inj by (rule conjI)
  with m show ?thesis by (simp only:)
qed

lemma filter_flags_JDict:
  assumes "distinct (map fst items)"
  shows "filter_flags (JDict items) base =
     Inr (JDict (map (\<lambda>(k, v). (drop (length base) k, v))
                  (filter (\<lambda>(k, v). prefix (base @ ''firefox'') k) items)))"
proof -
  let ?xs = "filter (\<lambda>(k, v). prefix (base @ ''firefox'') k) items"
  have eq: "map (\<lambda>(k, v). (replace1 base [] k, v)) ?xs = map (\<lambda>(k, v). (drop (length base) k, v)) ?xs"
  proof (rule map_cong [OF refl])
    fix x assume "x \<in> set ?xs"
    then have "prefix (base @ ''firefox'') (fst x)" by auto
    then have "prefix base (fst x)" by (auto simp: prefix_def)
    then show "(case x of (k, v) \<Rightarrow> (replace1 base [] k, v)) = (case x of (k, v) \<Rightarrow> (drop (length base) k, v))"
      by (simp add: case_prod_unfold replace1_prefix)
  qed
  from assms have "distinct (map fst (map (\<lambda>(k, v). (drop (length base) k, v)) ?xs))"
    by (rule distinct_stripped)
  then have "py_dict (map (\<lambda>(k, v). (drop (length base) k, v)) ?xs)
      = map (\<lambda>(k, v). (drop (length base) k, v)) ?xs"
    by (rule py_dict_distinct)
  with eq have "py_dict (map (\<lambda>(k, v). (replace1 base [] k, v)) ?xs)
      = map (\<lambda>(k, v). (drop (length base) k, v)) ?xs"
    by (simp only:)
  then show ?thesis
    by (simp only: filter_flags_def json.case)
qed

lemma stripped_key_firefox:
  assumes "(k', v) \<in> set (map (\<lambda>(k, v). (drop (length base) k, v))
                  (filter (\<lambda>(k, v). prefix (base @ ''firefox'') k) items))"
  shows "prefix ''firefox'' k'"
proof -
  from assms obtain k where "k' = drop (length base) k" "prefix (base @ ''firefox'') k"
    by auto
  then show ?thesis by (auto simp: prefix_def)
qed

text \<open>
  Claim C8. \<^verbatim>\<open>flags_status\<close> and \<^verbatim>\<open>flags_tracking\<close> are built from the fields of the bug
  whose names start with \<^verbatim>\<open>cf_status_firefox\<close> and with \<^verbatim>\<open>cf_tracking_firefox\<close>; each
  maps the rest of the name after \<^verbatim>\<open>cf_status_\<close> or \<^verbatim>\<open>cf_tracking_\<close> alone, which
  therefore starts with \<^verbatim>\<open>firefox\<close>, to the field's value as it is. The keys of the bug
  are distinct, as those of a dictionary are.
\<close>

theorem custom_flags:
  assumes "serialize_bug B b = Inr out"
    and "payload_data b = JDict p"
    and "map_of p ''bug'' = Some (JDict bug_data)"
    and "distinct (map fst bug_data)"
  shows "\<exists>d fs ft. out = JDict d
     \<and> map_of d ''flags_status'' = Some (JDict fs)
     \<and> map_of d ''flags_tracking'' = Some (JDict ft)
     \<and> fs = map (\<lambda>(k, v). (drop (length ''cf_status_'') k, v))
              (filter (\<lambda>(k, v). prefix ''cf_status_firefox'' k) bug_data)
     \<and> ft = map (\<lambda>(k, v). (drop (length ''cf_tracking_'') k, v))
              (filter (\<lambda>(k, v). prefix ''cf_tracking_firefox'' k) bug_data)
     \<and> (\<forall>k v. (k, v) \<in> set fs \<or> (k, v) \<in> set ft \<longrightarrow> prefix ''firefox'' k)"
proof -
  let ?fs = "map (\<lambda>(k, v). (drop (length ''cf_status_'') k, v))
              (filter (\<lambda>(k, v). prefix ''cf_status_firefox'' k) bug_data)"
  let ?ft = "map (\<lambda>(k, v). (drop (length ''cf_tracking_'') k, v))
              (filter (\<lambda>(k, v). prefix ''cf_tracking_firefox'' k) bug_data)"
  from serialize_bug_Inr [OF assms(1)] assms(2,3)
  obtain analysis uplift versions
    where "bug_fields B b (JDict p) (JDict bug_data) analysis uplift versions = Inr out"
    by auto
  from bug_fields_Inr [OF this]
  obtain d fs ft where out: "out = JDict d"
    and fs: "filter_flags (JDict bug_data) status_base_flag = Inr fs"
      "map_of d ''flags_status'' = Some fs"
    and ft: "filter_flags (JDict bug_data) tracking_base_flag = Inr ft"
      "map_of d ''flags_tracking'' = Some ft"
    by auto
  from fs(1) assms(4) have fs': "fs = JDict ?fs"
    by (simp add: filter_flags_JDict status_base_flag_def)
  from ft(1) assms(4) have ft': "ft = JDict ?ft"
    by (simp add: filter_flags_JDict tracking_base_flag_def)
  have pf: "prefix ''firefox'' k" if "(k, v) \<in> set ?fs \<or> (k, v) \<in> set ?ft" for k v
  proof -
    from that have "(k, v) \<in> set (map (\<lambda>(k, v). (drop (length ''cf_status_'') k, v))
              (filter (\<lambda>(k, v). prefix (''cf_status_'' @ ''firefox'') k) bug_data))
        \<or> (k, v) \<in> set (map (\<lambda>(k, v). (drop (length ''cf_tracking_'') k, v))
              (filter (\<lambda>(k, v). prefix (''cf_tracking_'' @ ''firefox'') k) bug_data))"
      by simp
    then show ?thesis
      using stripped_key_firefox by fast
  qed
  show ?thesis
  proof (intro exI conjI allI impI)
    show "out = JDict d" by fact
    show "map_of d ''flags_status'' = Some (JDict ?fs)" using fs(2) fs' by (simp only:)
    show "map_of d ''flags_tracking'' = Some (JDict ?ft)" using ft(2) ft' by (simp only:)
    show "?fs = ?fs" by (rule refl)
    show "?ft = ?ft" by (rule refl)
    show "prefix ''firefox'' k" if "(k, v) \<in> set ?fs \<or> (k, v) \<in> set ?ft" for k v
      using that by (rule pf)
  qed
qed

theorem custom_flags_witness:
  "serialize_bug toy_builtins ex_bug = Inr (JDict ex_bug_out)
   \<and> payload_data ex_bug = JDict ex_payload
   \<and> map_of ex_payload ''bug'' = Some (JDict ex_bug_data)
   \<and> distinct (map fst ex_bug_data)
   \<and> map_of ex_bug_out ''flags_status'' = Some (JDict [(''firefox45'', JStr ''fixed'')])
   \<and> map_of ex_bug_out ''flags_tracking'' = Some (JDict [(''firefox45'', JStr ''+'')])"
proof -
  have h: "payload_data ex_bug = JDict ex_payload"
    "map_of ex_payload ''bug'' = Some (JDict ex_bug_data)"
    "distinct (map fst ex_bug_data)"
    by (simp_all add: ex_bug_def ex_payload_def ex_bug_data_def)
  from custom_flags [OF ex_bug_serialized h]
  have "map_of ex_bug_out ''flags_status'' = Some (JDict [(''firefox45'', JStr ''fixed'')])
    \<and> map_of ex_bug_out ''flags_tracking'' = Some (JDict [(''firefox45'', JStr ''+'')])"
    by (simp add: ex_bug_data_def)
  with h ex_bug_serialized show ?thesis by simp
qed

section \<open>The uplift block\<close>

lemma py_in_JDict [simp]: "py_in k (JDict kvs) = Inr (map_of kvs k \<noteq> None)"
  by (simp add: py_in_def key_in_iff)

lemma build_uplift_none:
  assumes "(case map_of an ''uplift_comment'' of Some c \<Rightarrow> \<not> truthy c | None \<Rightarrow> True)
         \<or> (case map_of an ''uplift_author'' of Some a \<Rightarrow> \<not> truthy a | None \<Rightarrow> True)"
  shows "build_uplift B (JDict an) = Inr JNull"
  using assms by (auto simp: build_uplift_def split: option.splits)

lemma build_uplift_dict:
  assumes "map_of an ''uplift_comment'' = Some (JDict cd)" "cd \<noteq> []"
    and "map_of an ''uplift_author'' = Some a" "truthy a"
  shows "build_uplift B (JDict an) =
     (case map_of cd ''html'' of
        Some h \<Rightarrow>
          (case map_of cd ''id'' of
             None \<Rightarrow> Inl (KeyError ''id'')
           | Some cid \<Rightarrow> bindE (serialize_user B a) (\<lambda>au.
               Inr (JDict [(''id'', cid), (''author'', au), (''comment'', h)])))
      | None \<Rightarrow>
          (case map_of cd ''id'' of
             None \<Rightarrow> Inl (KeyError ''id'')
           | Some cid \<Rightarrow> bindE (serialize_user B a) (\<lambda>au.
               Inr (JDict [(''id'', cid), (''author'', au),
                 (''comment'', case map_of cd ''text'' of Some t \<Rightarrow> t | None \<Rightarrow> JStr ''No comment.'')]))))"
  using assms by (auto simp: build_uplift_def split: option.splits)

lemma build_uplift_not_dict:
  assumes "map_of an ''uplift_comment'' = Some c" "truthy c"
    and "map_of an ''uplift_author'' = Some a" "truthy a"
    and "\<forall>cd. c \<noteq> JDict cd"
  shows "\<exists>e. build_uplift B (JDict an) = Inl e"
proof (cases c)
  case (JStr s)
  with assms show ?thesis
    by (cases "is_substring ''html'' s")
       (simp_all add: build_uplift_def py_in_def getitem_def py_get_def)
next
  case (JList xs)
  with assms show ?thesis
    by (cases "JStr ''html'' \<in> set xs")
       (simp_all add: build_uplift_def py_in_def getitem_def py_get_def)
qed (use assms in \<open>simp_all add: build_uplift_def py_in_def\<close>)

lemma build_uplift_block:
  assumes "map_of an ''uplift_comment'' = Some c" "truthy c"
    and "map_of an ''uplift_author'' = Some a" "truthy a"
    and "build_uplift B (JDict an) = Inr u"
  shows "\<exists>cd cid au. c = JDict cd \<and> map_of cd ''id'' = Some cid \<and> serialize_user B a = Inr au \<and>
     u = JDict [(''id'', cid), (''author'', au), (''comment'',
        case map_of cd ''html'' of
          Some h \<Rightarrow> h
        | None \<Rightarrow> (case map_of cd ''text'' of Some t \<Rightarrow> t | None \<Rightarrow> JStr ''No comment.''))]"
proof -
  from build_uplift_not_dict [OF assms(1-4), of B] assms(5)
  obtain cd where c: "c = JDict cd" by auto
  with assms(2) have "cd \<noteq> []" by simp
  from build_uplift_dict [OF assms(1) [unfolded c] this assms(3,4), of B] assms(5) c
  show ?thesis
    by (auto simp: Inr_eq_bindE split: option.splits)
qed

text \<open>
  Claim C3, as the source has it. The guard of line 40 reads the truth values of
  \<^verbatim>\<open>uplift_comment\<close> and \<^verbatim>\<open>uplift_author\<close>. So \<^verbatim>\<open>uplift\<close> is \<^verbatim>\<open>None\<close> when either key is
  missing, and also when either is present with a value that is not true (\<^verbatim>\<open>None\<close>, an
  empty string or dictionary). When both are present and true, the block has the
  comment's \<^verbatim>\<open>id\<close>, the serialized author, and as \<^verbatim>\<open>comment\<close> the comment's \<^verbatim>\<open>html\<close> if
  it has one, else its \<^verbatim>\<open>text\<close>, else the text \<^verbatim>\<open>No comment.\<close>
\<close>

theorem uplift_block:
  assumes "serialize_bug B b = Inr out"
    and "payload_data b = JDict p"
    and "map_of p ''analysis'' = Some (JDict an)"
  shows "\<exists>d. out = JDict d
     \<and> (map_of an ''uplift_comment'' = None \<or> map_of an ''uplift_author'' = None
          \<longrightarrow> map_of d ''uplift'' = Some JNull)
     \<and> (\<forall>c a. map_of an ''uplift_comment'' = Some c \<and> map_of an ''uplift_author'' = Some a
            \<and> (\<not> truthy c \<or> \<not> truthy a)
          \<longrightarrow> map_of d ''uplift'' = Some JNull)
     \<and> (\<forall>c a. map_of an ''uplift_comment'' = Some c \<and> map_of an ''uplift_author'' = Some a
            \<and> truthy c \<and> truthy a
          \<longrightarrow> (\<exists>cd cid au. c = JDict cd \<and> map_of cd ''id'' = Some cid
                 \<and> serialize_user B a = Inr au
                 \<and> map_of d ''uplift'' = Some (JDict
                      [(''id'', cid), (''author'', au),
                       (''comment'',
                          case map_of cd ''html'' of
                            Some h \<Rightarrow> h
                          | None \<Rightarrow> (case map_of cd ''text'' of
                                       Some t \<Rightarrow> t
                                     | None \<Rightarrow> JStr ''No comment.''))])))"
proof -
  from serialize_bug_Inr [OF assms(1)] assms(2,3)
  obtain bug_data uplift versions
    where up: "build_uplift B (JDict an) = Inr uplift"
      and "bug_fields B b (JDict p) bug_data (JDict an) uplift versions = Inr out"
    by auto
  from bug_fields_Inr [OF this(2)]
  obtain d where out: "out = JDict d" and d: "map_of d ''uplift'' = Some uplift"
    by auto
  have none: "uplift = JNull"
    if "map_of an ''uplift_comment'' = None \<or> map_of an ''uplift_author'' = None"
    using that up build_uplift_none [of an B] by auto
  have falsy: "uplift = JNull"
    if "map_of an ''uplift_comment'' = Some c" "map_of an ''uplift_author'' = Some a"
      "\<not> truthy c \<or> \<not> truthy a" for c a
    using that up build_uplift_none [of an B] by auto
  show ?thesis
  proof (rule exI [of _ d], intro conjI allI impI)
    show "out = JDict d" by fact
  next
    assume "map_of an ''uplift_comment'' = None \<or> map_of an ''uplift_author'' = None"
    with none d show "map_of d ''uplift'' = Some JNull" by simp
  next
    fix c a
    assume "map_of an ''uplift_comment'' = Some c \<and> map_of an ''uplift_author'' = Some a
            \<and> (\<not> truthy c \<or> \<not> truthy a)"
    with falsy [of c a] d show "map_of d ''uplift'' = Some JNull" by simp
  next
    fix c a
    assume h: "map_of an ''uplift_comment'' = Some c \<and> map_of an ''uplift_author'' = Some a
            \<and> truthy c \<and> truthy a"
    then have "\<exists>cd cid au. c = JDict cd \<and> map_of cd ''id'' = Some cid
        \<and> serialize_user B a = Inr au
        \<and> uplift = JDict [(''id'', cid), (''author'', au),
            (''comment'',
               case map_of cd ''html'' of
                 Some h \<Rightarrow> h
               | None \<Rightarrow> (case map_of cd ''text'' of Some t \<Rightarrow> t | None \<Rightarrow> JStr ''No comment.''))]"
      using build_uplift_block [of an c a B uplift] up by simp
    with d show "\<exists>cd cid au. c = JDict cd \<and> map_of cd ''id'' = Some cid
        \<and> serialize_user B a = Inr au
        \<and> map_of d ''uplift'' = Some (JDict
             [(''id'', cid), (''author'', au),
              (''comment'',
                 case map_of cd ''html'' of
                   Some h \<Rightarrow> h
                 | None \<Rightarrow> (case map_of cd ''text'' of
                              Some t \<Rightarrow> t
                            | None \<Rightarrow> JStr ''No comment.''))])"
      by simp
  qed
qed

text \<open>The three cases on the examples: a comment and an author that are true, an author
  that is the empty string, and neither key.\<close>

theorem uplift_block_witness:
  "serialize_bug toy_builtins ex_bug = Inr (JDict ex_bug_out)
   \<and> map_of ex_analysis_data ''uplift_comment''
       = Some (JDict [(''id'', JInt 7), (''text'', JStr ''please'')])
   \<and> map_of ex_analysis_data ''uplift_author'' = Some (JDict [(''name'', JStr ''dora'')])
   \<and> map_of ex_bug_out ''uplift''
       = Some (JDict [(''id'', JInt 7),
            (''author'', JDict [(''name'', JStr ''dora''), (''email'', JStr ''dora''),
                                (''avatar'', JStr ''https://www.gravatar.com/avatar/dora'')]),
            (''comment'', JStr ''please'')])
   \<and> serialize_bug toy_builtins uplift_cex_bug = Inr (JDict uplift_cex_out)
   \<and> map_of uplift_cex_analysis ''uplift_author'' = Some (JStr '''')
   \<and> map_of uplift_cex_out ''uplift'' = Some JNull
   \<and> serialize_bug toy_builtins plain_bug = Inr (JDict plain_bug_out)
   \<and> map_of plain_analysis_data ''uplift_comment'' = None
   \<and> map_of plain_bug_out ''uplift'' = Some JNull"
proof -
  have e: "payload_data ex_bug = JDict ex_payload"
    "map_of ex_payload ''analysis'' = Some (JDict ex_analysis_data)"
    by (simp_all add: ex_bug_def ex_payload_def)
  have u: "payload_data uplift_cex_bug = JDict uplift_cex_payload"
    "map_of uplift_cex_payload ''analysis'' = Some (JDict uplift_cex_analysis)"
    by (simp_all add: uplift_cex_bug_def uplift_cex_payload_def)
  have p: "payload_data plain_bug = JDict plain_payload"
    "map_of plain_payload ''analysis'' = Some (JDict plain_analysis_data)"
    by (simp_all add: plain_bug_def plain_payload_def)
  from uplift_block [OF ex_bug_serialized e]
  have 1: "map_of ex_bug_out ''uplift''
       = Some (JDict [(''id'', JInt 7),
            (''author'', JDict [(''name'', JStr ''dora''), (''email'', JStr ''dora''),
                                (''avatar'', JStr ''https://www.gravatar.com/avatar/dora'')]),
            (''comment'', JStr ''please'')])"
    by (simp add: ex_bug_out_def)
  from uplift_block [OF uplift_cex_bug_serialized u]
  have 2: "map_of uplift_cex_out ''uplift'' = Some JNull"
    by (simp add: uplift_cex_analysis_def)
  from uplift_block [OF plain_bug_serialized p]
  have 3: "map_of plain_bug_out ''uplift'' = Some JNull"
    by (simp add: plain_analysis_data_def)
  from 1 2 3 ex_bug_serialized uplift_cex_bug_serialized plain_bug_serialized
  show ?thesis
    by (simp add: ex_analysis_data_def uplift_cex_analysis_def plain_analysis_data_def)
qed

text \<open>
  Claim C3 as the specification words it fails on the second example: the analysis
  carries both keys, the comment has an \<^verbatim>\<open>id\<close> and a \<^verbatim>\<open>text\<close>, and \<^verbatim>\<open>uplift\<close> is \<^verbatim>\<open>None\<close>,
  not a block. The library functions play no part in it.
\<close>

theorem uplift_present_counterexample:
  "payload_data uplift_cex_bug = JDict uplift_cex_payload
   \<and> map_of uplift_cex_payload ''analysis'' = Some (JDict uplift_cex_analysis)
   \<and> map_of uplift_cex_analysis ''uplift_comment''
       = Some (JDict [(''id'', JInt 7), (''text'', JStr ''please'')])
   \<and> map_of uplift_cex_analysis ''uplift_author'' = Some (JStr '''')
   \<and> serialize_bug toy_builtins uplift_cex_bug = Inr (JDict uplift_cex_out)
   \<and> map_of uplift_cex_out ''uplift'' = Some JNull"
  using uplift_cex_bug_serialized
  by (simp add: uplift_cex_bug_def uplift_cex_payload_def uplift_cex_analysis_def
      uplift_cex_out_def)

section \<open>A bug without attachments\<close>

lemma build_versions_no_attachments:
  assumes "map_of bd ''attachments'' = None"
  shows "build_versions B (JDict bd) = Inr (JDict [])"
  using assms by (simp add: build_versions_def py_iter_def)

lemma build_versions_empty_attachments:
  assumes "map_of bd ''attachments'' = Some (JList [])"
  shows "build_versions B (JDict bd) = Inr (JDict [])"
  using assms by (simp add: build_versions_def py_iter_def)

lemma bug_fields_summary_keywords:
  assumes "bug_fields B b pv bug_data analysis uplift versions = Inr out"
  shows "\<exists>s k. getitem bug_data ''summary'' = Inr s \<and> getitem bug_data ''keywords'' = Inr k"
  using assms unfolding bug_fields_def bindE_eq_Inr by fast

lemma not_Inr_is_Inl: "(\<forall>y. x \<noteq> Inr y) \<Longrightarrow> \<exists>e. x = Inl e"
  by (cases x) auto

lemma filter_flags_extra:
  assumes "\<not> prefix (base @ ''firefox'') k"
  shows "filter_flags (JDict (bd @ [(k, v)])) base = filter_flags (JDict bd) base"
  using assms by (simp add: filter_flags_def)

lemma map_of_snoc_other: "k' \<noteq> k \<Longrightarrow> map_of (bd @ [(k, v)]) k' = map_of bd k'"
  by (induction bd) auto

lemma getitem_snoc_other:
  "k' \<noteq> k \<Longrightarrow> getitem (JDict (bd @ [(k, v)])) k' = getitem (JDict bd) k'"
  by (simp add: map_of_snoc_other del: map_of_append)

lemma py_get_dict_set_other:
  "k' \<noteq> k \<Longrightarrow> py_get (JDict (dict_set p k v)) k' x = py_get (JDict p) k' x"
  by (simp add: map_of_dict_set)

lemma bug_fields_extra_attachments:
  assumes "map_of p ''bug'' = Some (JDict bd)" and "map_of bd ''attachments'' = None"
  shows "bug_fields B (b\<lparr>payload_data := pd'\<rparr>) (JDict (dict_set p ''bug'' bd'))
            (JDict (bd @ [(''attachments'', x)])) an up vs
       = bug_fields B b (JDict p) (JDict bd) an up vs"
proof -
  have 1: "filter_flags (JDict (bd @ [(''attachments'', x)])) status_base_flag
      = filter_flags (JDict bd) status_base_flag"
    by (rule filter_flags_extra) (simp add: status_base_flag_def)
  have 2: "filter_flags (JDict (bd @ [(''attachments'', x)])) tracking_base_flag
      = filter_flags (JDict bd) tracking_base_flag"
    by (rule filter_flags_extra) (simp add: tracking_base_flag_def)
  have 3: "getitem (JDict (bd @ [(''attachments'', x)])) ''summary'' = getitem (JDict bd) ''summary''"
    by (rule getitem_snoc_other) simp
  have 4: "getitem (JDict (bd @ [(''attachments'', x)])) ''keywords'' = getitem (JDict bd) ''keywords''"
    by (rule getitem_snoc_other) simp
  have 5: "py_get (JDict (dict_set p ''bug'' bd')) ''url'' y = py_get (JDict p) ''url'' y" for y
    by (rule py_get_dict_set_other) simp
  show ?thesis
    unfolding bug_fields_def 1 2 3 4 5
    by simp
qed


lemma dict_set_not_Nil [simp]: "dict_set kvs k v \<noteq> []"
  by (cases kvs) (auto split: if_splits)

lemma serialize_users_succeeds:
  "list_all valid_user rs \<Longrightarrow> \<exists>us. serialize_users B rs = Inr us"
proof (induction rs)
  case Nil
  then show ?case by simp
next
  case (Cons r rs)
  then have "valid_user r" and "\<exists>us. serialize_users B rs = Inr us" by simp_all
  moreover from \<open>valid_user r\<close> have "\<exists>u. serialize_user B r = Inr u"
    by (simp add: serialize_user_succeeds)
  ultimately show ?case by auto
qed

lemma build_uplift_succeeds:
  assumes "valid_uplift an"
  shows "\<exists>u. build_uplift B (JDict an) = Inr u"
proof (cases "(case map_of an ''uplift_comment'' of Some c \<Rightarrow> \<not> truthy c | None \<Rightarrow> True)
         \<or> (case map_of an ''uplift_author'' of Some a \<Rightarrow> \<not> truthy a | None \<Rightarrow> True)")
  case True
  then show ?thesis by (simp add: build_uplift_none)
next
  case False
  then obtain c a where ca: "map_of an ''uplift_comment'' = Some c" "truthy c"
    "map_of an ''uplift_author'' = Some a" "truthy a"
    by (auto split: option.splits)
  with assms obtain cd cid where c: "c = JDict cd" "map_of cd ''id'' = Some cid" and a: "valid_user a"
    by (cases c) (auto simp: valid_uplift_def)
  from ca c have ne: "cd \<noteq> []" by simp
  from a obtain au where au: "serialize_user B a = Inr au"
    using serialize_user_succeeds [of B a] by auto
  from build_uplift_dict [OF ca(1) [unfolded c(1)] ne ca(3,4), of B] c(2) au
  show ?thesis
    by (auto split: option.splits)
qed

lemma filter_flags_succeeds: "\<exists>fs. filter_flags (JDict bd) base = Inr fs"
  by (simp add: filter_flags_def)

lemma bug_fields_succeeds:
  assumes "map_of bd ''summary'' \<noteq> None" "map_of bd ''keywords'' \<noteq> None"
    and "map_of an ''users'' = Some us" "valid_users us" "map_of an ''patches'' \<noteq> None"
  shows "\<exists>d. bug_fields B b (JDict p) (JDict bd) (JDict an) uplift versions = Inr (JDict d)
     \<and> map_of d ''versions'' = Some versions"
proof -
  from assms(4) obtain ud c a rs where us: "us = JDict ud"
    and ud: "map_of ud ''creator'' = Some c" "map_of ud ''assignee'' = Some a"
      "map_of ud ''reviewers'' = Some (JList rs)"
    and v: "valid_user c" "valid_user a" "list_all valid_user rs"
    by (cases us) (auto simp: valid_users_def split: option.splits json.splits)
  from v obtain c' a' rs' where s: "serialize_user B c = Inr c'" "serialize_user B a = Inr a'"
    "serialize_users B rs = Inr rs'"
    using serialize_user_succeeds [of B c] serialize_user_succeeds [of B a]
      serialize_users_succeeds [of rs B] by auto
  obtain fs ft where f: "filter_flags (JDict bd) status_base_flag = Inr fs"
    "filter_flags (JDict bd) tracking_base_flag = Inr ft"
    using filter_flags_succeeds by blast
  from assms(1,2,5) obtain sm kw pt where g: "map_of bd ''summary'' = Some sm"
    "map_of bd ''keywords'' = Some kw" "map_of an ''patches'' = Some pt"
    by auto
  show ?thesis
    unfolding bug_fields_def
    by (simp add: g f s us ud assms(3) py_iter_def)
qed

text \<open>
  Claim C10, as the source has it. A bug whose \<^verbatim>\<open>bug\<close> dictionary has no
  \<^verbatim>\<open>attachments\<close> key and whose payload is well-formed otherwise (the bug has \<^verbatim>\<open>summary\<close>
  and \<^verbatim>\<open>keywords\<close>, the analysis is well-formed) does not fault: the call returns, and
  \<^verbatim>\<open>versions\<close> is the empty dictionary. Whatever the rest of the payload is, line 57 takes
  the empty list, the versions are built as the empty dictionary without error, a result
  has \<^verbatim>\<open>versions\<close> equal to the empty dictionary, and the call behaves as on the same
  payload with \<^verbatim>\<open>attachments\<close> set to the empty list. The fields \<^verbatim>\<open>summary\<close> and
  \<^verbatim>\<open>keywords\<close> have no such fallback: without either, the call ends in an exception.
\<close>

theorem attachments_default:
  assumes "payload_data b = JDict p"
    and "map_of p ''bug'' = Some (JDict bd)"
    and "map_of bd ''attachments'' = None"
  shows "build_versions B (JDict bd) = Inr (JDict [])
     \<and> (map_of bd ''summary'' \<noteq> None \<and> map_of bd ''keywords'' \<noteq> None
          \<and> map_of p ''analysis'' = Some (JDict an) \<and> valid_analysis an
          \<longrightarrow> (\<exists>d. serialize_bug B b = Inr (JDict d) \<and> map_of d ''versions'' = Some (JDict [])))
     \<and> (\<forall>d. serialize_bug B b = Inr (JDict d) \<longrightarrow> map_of d ''versions'' = Some (JDict []))
     \<and> (bd \<noteq> [] \<longrightarrow>
          serialize_bug B b
          = serialize_bug B (b\<lparr>payload_data :=
              JDict (dict_set p ''bug'' (JDict (bd @ [(''attachments'', JList [])])))\<rparr>))
     \<and> (map_of bd ''summary'' = None \<or> map_of bd ''keywords'' = None
          \<longrightarrow> (\<exists>e. serialize_bug B b = Inl e))"
proof (intro conjI allI impI)
  show v: "build_versions B (JDict bd) = Inr (JDict [])"
    using assms(3) by (rule build_versions_no_attachments)
  show "\<exists>d. serialize_bug B b = Inr (JDict d) \<and> map_of d ''versions'' = Some (JDict [])"
    if h: "map_of bd ''summary'' \<noteq> None \<and> map_of bd ''keywords'' \<noteq> None
          \<and> map_of p ''analysis'' = Some (JDict an) \<and> valid_analysis an"
  proof -
    from h obtain us where us: "map_of an ''users'' = Some us" "valid_users us"
      and pt: "map_of an ''patches'' \<noteq> None" and up: "valid_uplift an"
      by (auto simp: valid_analysis_def split: option.splits)
    from assms(2) have p: "p \<noteq> []" by auto
    from h have bd: "bd \<noteq> []" by auto
    from us have an: "an \<noteq> []" by auto
    from build_uplift_succeeds [OF up, of B]
    obtain u where u: "build_uplift B (JDict an) = Inr u" by (elim exE)
    from h have sk: "map_of bd ''summary'' \<noteq> None" "map_of bd ''keywords'' \<noteq> None" by simp_all
    from bug_fields_succeeds [OF sk us pt, of B b p u "JDict []"]
    obtain d where d: "bug_fields B b (JDict p) (JDict bd) (JDict an) u (JDict []) = Inr (JDict d)"
      "map_of d ''versions'' = Some (JDict [])"
      by (elim exE conjE)
    from h have a: "map_of p ''analysis'' = Some (JDict an)" by simp
    have "serialize_bug B b = Inr (JDict d)"
      unfolding serialize_bug_def Let_def
      using p bd an
      by (simp add: assms(1,2) a u v d(1))
    with d(2) show ?thesis
      by (intro exI [of _ d] conjI)
  qed
  show "map_of d ''versions'' = Some (JDict [])" if "serialize_bug B b = Inr (JDict d)" for d
  proof -
    from serialize_bug_Inr [OF that] assms(1,2) v
    obtain analysis uplift
      where "bug_fields B b (JDict p) (JDict bd) analysis uplift (JDict []) = Inr (JDict d)"
      by auto
    from bug_fields_Inr [OF this] show ?thesis by auto
  qed
  show "serialize_bug B b
      = serialize_bug B (b\<lparr>payload_data :=
          JDict (dict_set p ''bug'' (JDict (bd @ [(''attachments'', JList [])])))\<rparr>)"
    if "bd \<noteq> []"
  proof -
    let ?bd' = "bd @ [(''attachments'', JList [])]"
    let ?p' = "dict_set p ''bug'' (JDict ?bd')"
    from assms(2) have p: "p \<noteq> []" by auto
    have an: "py_get (JDict ?p') ''analysis'' JNull = py_get (JDict p) ''analysis'' JNull"
      by (rule py_get_dict_set_other) simp
    have bg: "py_get (JDict ?p') ''bug'' JNull = Inr (JDict ?bd')"
      by (simp add: map_of_dict_set)
    have bg0: "py_get (JDict p) ''bug'' JNull = Inr (JDict bd)"
      using assms(2) by simp
    have v': "build_versions B (JDict ?bd') = Inr (JDict [])"
      using assms(3) by (intro build_versions_empty_attachments) (simp add: map_add_def)
    have f: "bug_fields B (b\<lparr>payload_data := JDict ?p'\<rparr>) (JDict ?p') (JDict ?bd') a u w
        = bug_fields B b (JDict p) (JDict bd) a u w" for a u w
      using assms(2,3) by (rule bug_fields_extra_attachments)
    show ?thesis
      unfolding serialize_bug_def Let_def
      using p that
      by (simp add: assms(1) an bg bg0 v v' f del: py_get_JDict cong: if_cong)
  qed
  show "\<exists>e. serialize_bug B b = Inl e"
    if "map_of bd ''summary'' = None \<or> map_of bd ''keywords'' = None"
  proof (rule not_Inr_is_Inl, intro allI notI)
    fix out assume "serialize_bug B b = Inr out"
    from serialize_bug_Inr [OF this] assms(1,2)
    obtain analysis uplift versions
      where "bug_fields B b (JDict p) (JDict bd) analysis uplift versions = Inr out"
      by auto
    from bug_fields_summary_keywords [OF this] that show False
      by auto
  qed
qed

theorem attachments_default_witness:
  "payload_data plain_bug = JDict plain_payload
   \<and> map_of plain_payload ''bug'' = Some (JDict plain_bug_data)
   \<and> map_of plain_bug_data ''attachments'' = None
   \<and> map_of plain_bug_data ''summary'' = Some (JStr ''Plain'')
   \<and> map_of plain_bug_data ''keywords'' = Some (JList [JStr ''perf''])
   \<and> map_of plain_payload ''analysis'' = Some (JDict plain_analysis_data)
   \<and> valid_analysis plain_analysis_data
   \<and> serialize_bug toy_builtins plain_bug = Inr (JDict plain_bug_out)
   \<and> map_of plain_bug_out ''versions'' = Some (JDict [])
   \<and> build_versions toy_builtins (JDict plain_bug_data) = Inr (JDict [])
   \<and> serialize_bug toy_builtins (plain_bug\<lparr>payload_data :=
        JDict (dict_set plain_payload ''bug''
          (JDict (plain_bug_data @ [(''attachments'', JList [])])))\<rparr>)
      = Inr (JDict plain_bug_out)"
proof -
  have h: "payload_data plain_bug = JDict plain_payload"
    "map_of plain_payload ''bug'' = Some (JDict plain_bug_data)"
    "map_of plain_bug_data ''attachments'' = None"
    by (simp_all add: plain_bug_def plain_payload_def plain_bug_data_def)
  have w: "map_of plain_bug_data ''summary'' = Some (JStr ''Plain'')"
    "map_of plain_bug_data ''keywords'' = Some (JList [JStr ''perf''])"
    "map_of plain_payload ''analysis'' = Some (JDict plain_analysis_data)"
    by (simp_all add: plain_payload_def plain_bug_data_def)
  have va: "valid_analysis plain_analysis_data"
    by (simp add: valid_analysis_def valid_users_def valid_uplift_def valid_user_def
        plain_analysis_data_def)
  have ne: "plain_bug_data \<noteq> []"
    by (simp add: plain_bug_data_def)
  from attachments_default [OF h, of toy_builtins plain_analysis_data] w va
  obtain d where "serialize_bug toy_builtins plain_bug = Inr (JDict d)"
    "map_of d ''versions'' = Some (JDict [])"
    by auto
  with plain_bug_serialized have "map_of plain_bug_out ''versions'' = Some (JDict [])"
    by simp
  with attachments_default [OF h, of toy_builtins plain_analysis_data]
    plain_bug_serialized ne h w va
  show ?thesis by simp
qed

text \<open>
  Claim C10 as the specification words it, for every payload without \<^verbatim>\<open>attachments\<close>,
  fails on a bug that has \<^verbatim>\<open>summary\<close> and \<^verbatim>\<open>keywords\<close> and whose analysis has no
  \<^verbatim>\<open>patches\<close>: line 101 reads \<^verbatim>\<open>analysis['patches']\<close> without a fallback, and the call
  ends in a \<^verbatim>\<open>KeyError\<close>.
\<close>

theorem attachments_default_counterexample:
  "payload_data no_patches_bug = JDict no_patches_payload
   \<and> map_of no_patches_payload ''bug'' = Some (JDict plain_bug_data)
   \<and> map_of plain_bug_data ''attachments'' = None
   \<and> serialize_bug toy_builtins no_patches_bug = Inl (KeyError ''patches'')"
proof -
  have "serialize_bug toy_builtins no_patches_bug = Inl (KeyError ''patches'')"
    by code_simp
  then show ?thesis
    by (simp add: no_patches_bug_def no_patches_payload_def plain_bug_data_def)
qed

section \<open>The versions\<close>

lemma version_flag_step:
  assumes "is_flag f n s" and "getitem a ''id'' = Inr i"
  shows "version_flag B a vs f = Inr (version_step B vs (i, n, s))"
proof -
  from assms(1) obtain fd where f: "f = JDict fd" "map_of fd ''name'' = Some (JStr n)"
    "map_of fd ''status'' = Some s"
    by (cases f) (auto simp: is_flag_def)
  show ?thesis
  proof (cases "map_of vs (version_key B n s)")
    case None
    with f assms(2) show ?thesis
      by (simp add: version_flag_def version_step_def as_str_def key_in_iff Let_def
          map_of_dict_set)
  next
    case (Some e)
    with f assms(2) show ?thesis
      by (simp add: version_flag_def version_step_def as_str_def key_in_iff Let_def)
  qed
qed

lemma version_flags_fold:
  assumes "list_all2 (\<lambda>f (n, s). is_flag f n s) fs fl" and "getitem a ''id'' = Inr i"
  shows "version_flags B a vs fs = Inr (foldl (version_step B) vs (map (\<lambda>(n, s). (i, n, s)) fl))"
  using assms(1)
proof (induction fs fl arbitrary: vs rule: list_all2_induct)
  case Nil
  then show ?case by simp
next
  case (Cons f fs p fl)
  obtain n s where p: "p = (n, s)" by (cases p)
  with Cons.hyps have "is_flag f n s" by simp
  from version_flag_step [OF this assms(2)] Cons.IH p show ?case
    by simp
qed

lemma version_attachments_loop_fold:
  assumes "list_all2 (\<lambda>a (i, fl). is_attachment a i fl) atts tas"
  shows "version_attachments_loop B vs atts = Inr (foldl (version_step B) vs (flag_triples tas))"
  using assms
proof (induction atts tas arbitrary: vs rule: list_all2_induct)
  case Nil
  then show ?case by (simp add: flag_triples_def)
next
  case (Cons a atts p tas)
  obtain i fl where p: "p = (i, fl)" by (cases p)
  with Cons.hyps have "is_attachment a i fl" by simp
  then obtain ad fs where a: "a = JDict ad" "map_of ad ''id'' = Some i"
    "map_of ad ''flags'' = Some (JList fs)" "list_all2 (\<lambda>f (n, s). is_flag f n s) fs fl"
    by (cases a) (auto simp: is_attachment_def split: option.splits json.splits)
  from a have "getitem a ''id'' = Inr i" by simp
  from version_flags_fold [OF a(4) this] a Cons.IH p show ?case
    by (simp add: py_iter_def flag_triples_def)
qed


lemma map_fst_dict_set:
  "map fst (dict_set kvs k v) = (if k \<in> fst ` set kvs then map fst kvs else map fst kvs @ [k])"
  by (induction kvs) force+

lemma distinct_dict_set: "distinct (map fst kvs) \<Longrightarrow> distinct (map fst (dict_set kvs k v))"
  by (simp add: map_fst_dict_set)

lemma distinct_version_step:
  "distinct (map fst vs) \<Longrightarrow> distinct (map fst (version_step B vs t))"
  by (cases t) (simp add: version_step_def distinct_dict_set split: option.splits)

lemma distinct_version_fold:
  "distinct (map fst vs) \<Longrightarrow> distinct (map fst (foldl (version_step B) vs ts))"
  by (induction ts arbitrary: vs) (simp_all add: distinct_version_step)

lemma map_of_version_step:
  "map_of (version_step B vs (i, n, s)) key =
     (if prefix approval_base_flag n \<and> version_key B n s = key
      then Some (case map_of vs key of
                   None \<Rightarrow> \<lparr>version_name = JStr n, version_attachments = [py_str B i],
                            version_status = s\<rparr>
                 | Some e \<Rightarrow> e\<lparr>version_attachments := version_attachments e @ [py_str B i]\<rparr>)
      else map_of vs key)"
  by (auto simp: version_step_def map_of_dict_set split: option.splits)

lemma map_of_version_fold:
  fixes B key
  defines "P \<equiv> (\<lambda>(i, n, s). prefix approval_base_flag n \<and> version_key B n s = key)"
  shows "map_of (foldl (version_step B) vs ts) key =
     (case map_of vs key of
        Some e \<Rightarrow> Some (e\<lparr>version_attachments :=
                     version_attachments e @ map (\<lambda>(i, n, s). py_str B i) (filter P ts)\<rparr>)
      | None \<Rightarrow>
          (case filter P ts of
             [] \<Rightarrow> None
           | (i, n, s) # rest \<Rightarrow>
               Some \<lparr>version_name = JStr n,
                     version_attachments = map (\<lambda>(i, n, s). py_str B i) ((i, n, s) # rest),
                     version_status = s\<rparr>))"
proof (induction ts arbitrary: vs)
  case Nil
  then show ?case by (simp split: option.splits)
next
  case (Cons t ts)
  obtain i n s where t: "t = (i, n, s)" by (cases t)
  show ?case
  proof (cases "P t")
    case True
    with t have m: "map_of (version_step B vs t) key =
        Some (case map_of vs key of
                None \<Rightarrow> \<lparr>version_name = JStr n, version_attachments = [py_str B i],
                         version_status = s\<rparr>
              | Some e \<Rightarrow> e\<lparr>version_attachments := version_attachments e @ [py_str B i]\<rparr>)"
      by (simp add: map_of_version_step P_def)
    show ?thesis
    proof (cases "map_of vs key")
      case None
      with m have "map_of (version_step B vs t) key =
          Some \<lparr>version_name = JStr n, version_attachments = [py_str B i],
                version_status = s\<rparr>"
        by simp
      with None True t show ?thesis
        by (simp add: Cons.IH)
    next
      case (Some e)
      with m have "map_of (version_step B vs t) key =
          Some (e\<lparr>version_attachments := version_attachments e @ [py_str B i]\<rparr>)"
        by simp
      with Some True t show ?thesis
        by (simp add: Cons.IH)
    qed
  next
    case False
    with t have f1: "map_of (version_step B vs t) key = map_of vs key"
      by (auto simp: map_of_version_step P_def)
    from False have f2: "filter P (t # ts) = filter P ts"
      by simp
    show ?thesis
      by (simp only: foldl_Cons Cons.IH f1 f2)
  qed
qed

lemma map_of_map_values:
  "map_of (map (\<lambda>(k, v). (k, f v)) xs) k = map_option f (map_of xs k)"
  by (induction xs) auto

lemma map_fst_map_values: "map fst (map (\<lambda>(k, v). (k, f v)) xs) = map fst xs"
  by (induction xs) auto

lemma build_versions_hits:
  assumes "map_of bd ''attachments'' = Some (JList atts)"
    and "list_all2 (\<lambda>a (i, fl). is_attachment a i fl) atts tas"
  shows "\<exists>vs. build_versions B (JDict bd) = Inr (JDict vs) \<and> distinct (map fst vs) \<and>
     (\<forall>key. map_of vs key =
        (case approval_hits B key tas of
           [] \<Rightarrow> None
         | (i, n, s) # rest \<Rightarrow>
             Some (JDict [(''name'', JStr n),
                          (''attachments'',
                             JList (map (\<lambda>(i, n, s). JStr (py_str B i)) ((i, n, s) # rest))),
                          (''status'', s)])))"
proof -
  let ?ws = "foldl (version_step B) [] (flag_triples tas)"
  let ?vs = "map (\<lambda>(k, v). (k, version_json v)) ?ws"
  from assms have b: "build_versions B (JDict bd) = Inr (JDict ?vs)"
    by (simp add: build_versions_def py_iter_def version_attachments_loop_fold)
  have d: "distinct (map fst ?vs)"
    unfolding map_fst_map_values by (rule distinct_version_fold) simp
  have m: "map_of ?vs key =
        (case approval_hits B key tas of
           [] \<Rightarrow> None
         | (i, n, s) # rest \<Rightarrow>
             Some (JDict [(''name'', JStr n),
                          (''attachments'',
                             JList (map (\<lambda>(i, n, s). JStr (py_str B i)) ((i, n, s) # rest))),
                          (''status'', s)]))" for key
  proof -
    have w: "map_of ?ws key =
        (case approval_hits B key tas of
           [] \<Rightarrow> None
         | (i, n, s) # rest \<Rightarrow>
             Some \<lparr>version_name = JStr n,
                   version_attachments = map (\<lambda>(i, n, s). py_str B i) ((i, n, s) # rest),
                   version_status = s\<rparr>)"
      by (simp add: map_of_version_fold approval_hits_def)
    have "map_of ?vs key = map_option version_json (map_of ?ws key)"
      by (rule map_of_map_values)
    also have "\<dots> =
        (case approval_hits B key tas of
           [] \<Rightarrow> None
         | (i, n, s) # rest \<Rightarrow>
             Some (JDict [(''name'', JStr n),
                          (''attachments'',
                             JList (map (\<lambda>(i, n, s). JStr (py_str B i)) ((i, n, s) # rest))),
                          (''status'', s)]))"
    proof (cases "approval_hits B key tas")
      case Nil
      with w show ?thesis by simp
    next
      case (Cons t rest)
      obtain i n s where "t = (i, n, s)" by (cases t)
      with Cons w show ?thesis
        by (simp add: version_json_def case_prod_unfold comp_def)
    qed
    finally show ?thesis .
  qed
  from b d m show ?thesis by blast
qed

lemma two_positions:
  assumes "p < q" "q < length xs"
  shows "\<exists>as bs cs. xs = as @ xs ! p # bs @ xs ! q # cs"
proof -
  from assms have p: "p < length xs" by simp
  let ?r = "drop (Suc p) xs"
  from assms have q: "q - Suc p < length ?r" by simp
  from assms have n: "?r ! (q - Suc p) = xs ! q" by simp
  from id_take_nth_drop [OF p] have 1: "xs = take p xs @ xs ! p # ?r" .
  from id_take_nth_drop [OF q] n
  have 2: "?r = take (q - Suc p) ?r @ xs ! q # drop (Suc (q - Suc p)) ?r" by simp
  from 1 2 have "xs = take p xs @ xs ! p # take (q - Suc p) ?r @ xs ! q # drop (Suc (q - Suc p)) ?r"
    by simp
  then show ?thesis by (intro exI)
qed

lemma flag_triples_append: "flag_triples (xs @ ys) = flag_triples xs @ flag_triples ys"
  by (simp add: flag_triples_def)

lemma flag_triples_Cons: "flag_triples ((i, fl) # ys) = map (\<lambda>(n, s). (i, n, s)) fl @ flag_triples ys"
  by (simp add: flag_triples_def)

lemma approval_hits_append:
  "approval_hits B key (xs @ ys) = approval_hits B key xs @ approval_hits B key ys"
  by (simp add: approval_hits_def flag_triples_append)

lemma approval_hits_Cons:
  "approval_hits B key ((i, fl) # ys)
     = map (\<lambda>(n, s). (i, n, s))
         (filter (\<lambda>(n, s). prefix approval_base_flag n \<and> version_key B n s = key) fl)
       @ approval_hits B key ys"
  by (simp add: approval_hits_def flag_triples_Cons filter_map comp_def case_prod_unfold)

lemma hit_of_attachment:
  assumes "(n, s) \<in> set fl" "prefix approval_base_flag n" "version_key B n s = key"
  shows "\<exists>us vs. map (\<lambda>t. py_str B (fst t)) (approval_hits B key ((i, fl) # ys))
     = us @ py_str B i # vs @ map (\<lambda>t. py_str B (fst t)) (approval_hits B key ys)"
proof -
  let ?h = "filter (\<lambda>(n, s). prefix approval_base_flag n \<and> version_key B n s = key) fl"
  let ?f = "\<lambda>xs. map (\<lambda>t. py_str B (fst t)) (map (\<lambda>(n, s). (i, n, s)) xs)"
  from assms have "(n, s) \<in> set ?h" by simp
  then obtain us vs where h: "?h = us @ (n, s) # vs"
    by (auto dest: split_list)
  have "?f ?h = ?f us @ py_str B i # ?f vs"
    unfolding h by simp
  then have "map (\<lambda>t. py_str B (fst t)) (approval_hits B key ((i, fl) # ys))
      = ?f us @ py_str B i # ?f vs @ map (\<lambda>t. py_str B (fst t)) (approval_hits B key ys)"
    by (simp only: approval_hits_Cons map_append append_assoc append_Cons)
  then show ?thesis
    by (intro exI)
qed

lemma hits_in_order:
  assumes "p < q" "q < length tas" "tas ! p = (i1, fl1)" "tas ! q = (i2, fl2)"
    and "(n1, s1) \<in> set fl1" "prefix approval_base_flag n1" "version_key B n1 s1 = key"
    and "(n2, s2) \<in> set fl2" "prefix approval_base_flag n2" "version_key B n2 s2 = key"
  shows "\<exists>xs ys zs. map (\<lambda>t. py_str B (fst t)) (approval_hits B key tas)
     = xs @ py_str B i1 # ys @ py_str B i2 # zs"
proof -
  from two_positions [OF assms(1,2)] assms(3,4)
  obtain as bs cs where t: "tas = as @ (i1, fl1) # bs @ (i2, fl2) # cs"
    by auto
  let ?ids = "\<lambda>ts. map (\<lambda>t. py_str B (fst t)) (approval_hits B key ts)"
  from hit_of_attachment [OF assms(8-10), of i2 cs]
  obtain u2 v2 where 2: "?ids ((i2, fl2) # cs) = u2 @ py_str B i2 # v2 @ ?ids cs"
    by (elim exE)
  from hit_of_attachment [OF assms(5-7), of i1 "bs @ (i2, fl2) # cs"]
  obtain u1 v1 where 1: "?ids ((i1, fl1) # bs @ (i2, fl2) # cs)
      = u1 @ py_str B i1 # v1 @ ?ids (bs @ (i2, fl2) # cs)"
    by (elim exE)
  have "?ids tas = ?ids as @ ?ids ((i1, fl1) # bs @ (i2, fl2) # cs)"
    unfolding t by (simp only: approval_hits_append map_append)
  also have "\<dots> = ?ids as @ u1 @ py_str B i1 # v1 @ ?ids bs @ ?ids ((i2, fl2) # cs)"
    unfolding 1 by (simp only: approval_hits_append map_append)
  also have "\<dots> = (?ids as @ u1) @ py_str B i1 # (v1 @ ?ids bs @ u2) @ py_str B i2 # (v2 @ ?ids cs)"
    unfolding 2 by (simp only: append_assoc append_Cons)
  finally show ?thesis by (intro exI)
qed


lemma serialize_bug_versions:
  assumes "serialize_bug B b = Inr (JDict d)"
    and "payload_data b = JDict p" and "map_of p ''bug'' = Some bug_data"
  shows "\<exists>v. build_versions B bug_data = Inr v \<and> map_of d ''versions'' = Some v"
proof -
  from serialize_bug_Inr [OF assms(1)] assms(2,3)
  obtain analysis uplift versions
    where v: "build_versions B bug_data = Inr versions"
      and "bug_fields B b (JDict p) bug_data analysis uplift versions = Inr (JDict d)"
    by auto
  from bug_fields_Inr [OF this(2)] have "map_of d ''versions'' = Some versions"
    by auto
  with v show ?thesis by simp
qed

text \<open>
  Claim C2. For well-formed attachments the versions are built without error, one entry
  for each key: the entry of a key has the name and the status of the first approval
  flag grouped under it and, as strings, the ids of the attachments of all of them, in
  the order of the loops. So two attachments with approval flags of the same key are in
  one entry, the earlier id before the later one; and a bug with just two attachments
  that carry the same approval flag has the single entry with the two ids. The entry
  lists \<^verbatim>\<open>name\<close>, \<^verbatim>\<open>attachments\<close>, \<^verbatim>\<open>status\<close> in the order line 64 writes them, which
  the comparison of dictionaries does not see.
\<close>

theorem versions_merge:
  assumes "map_of bd ''attachments'' = Some (JList atts)"
    and "list_all2 (\<lambda>a (i, fl). is_attachment a i fl) atts tas"
  shows "\<exists>vs. build_versions B (JDict bd) = Inr (JDict vs)
     \<and> (\<forall>b p d. serialize_bug B b = Inr (JDict d) \<and> payload_data b = JDict p
            \<and> map_of p ''bug'' = Some (JDict bd)
          \<longrightarrow> map_of d ''versions'' = Some (JDict vs))
     \<and> distinct (map fst vs)
     \<and> (\<forall>key. map_of vs key =
          (case approval_hits B key tas of
             [] \<Rightarrow> None
           | (i, n, s) # rest \<Rightarrow>
               Some (JDict [(''name'', JStr n),
                            (''attachments'',
                               JList (map (\<lambda>(i, n, s). JStr (py_str B i)) ((i, n, s) # rest))),
                            (''status'', s)])))
     \<and> (\<forall>p q i1 fl1 i2 fl2 n1 s1 n2 s2.
            p < q \<and> q < length tas \<and> tas ! p = (i1, fl1) \<and> tas ! q = (i2, fl2)
            \<and> (n1, s1) \<in> set fl1 \<and> prefix approval_base_flag n1
            \<and> (n2, s2) \<in> set fl2 \<and> prefix approval_base_flag n2
            \<and> version_key B n1 s1 = version_key B n2 s2
          \<longrightarrow> (\<exists>e xs ys zs. map_of vs (version_key B n1 s1) = Some (JDict e)
                 \<and> map_of e ''attachments''
                     = Some (JList (map JStr (xs @ py_str B i1 # ys @ py_str B i2 # zs)))))
     \<and> (\<forall>i1 i2 n s. tas = [(i1, [(n, s)]), (i2, [(n, s)])] \<and> prefix approval_base_flag n
          \<longrightarrow> vs = [(base_name n @ '' '' @ py_str B s,
                      JDict [(''name'', JStr n),
                             (''attachments'', JList [JStr (py_str B i1), JStr (py_str B i2)]),
                             (''status'', s)])])"
proof -
  from build_versions_hits [OF assms, of B]
  obtain vs where b: "build_versions B (JDict bd) = Inr (JDict vs)"
    and d: "distinct (map fst vs)"
    and m: "\<And>key. map_of vs key =
          (case approval_hits B key tas of
             [] \<Rightarrow> None
           | (i, n, s) # rest \<Rightarrow>
               Some (JDict [(''name'', JStr n),
                            (''attachments'',
                               JList (map (\<lambda>(i, n, s). JStr (py_str B i)) ((i, n, s) # rest))),
                            (''status'', s)]))"
    by auto
  have sb: "map_of d' ''versions'' = Some (JDict vs)"
    if "serialize_bug B b' = Inr (JDict d') \<and> payload_data b' = JDict p'
        \<and> map_of p' ''bug'' = Some (JDict bd)" for b' p' d'
    using serialize_bug_versions [of B b' d' p' "JDict bd"] that b by auto
  have ord: "\<exists>e xs ys zs. map_of vs (version_key B n1 s1) = Some (JDict e)
        \<and> map_of e ''attachments''
            = Some (JList (map JStr (xs @ py_str B i1 # ys @ py_str B i2 # zs)))"
    if h: "p < q \<and> q < length tas \<and> tas ! p = (i1, fl1) \<and> tas ! q = (i2, fl2)
        \<and> (n1, s1) \<in> set fl1 \<and> prefix approval_base_flag n1
        \<and> (n2, s2) \<in> set fl2 \<and> prefix approval_base_flag n2
        \<and> version_key B n1 s1 = version_key B n2 s2"
    for p q i1 fl1 i2 fl2 n1 s1 n2 s2
  proof -
    let ?key = "version_key B n1 s1"
    from h have "\<exists>xs ys zs. map (\<lambda>t. py_str B (fst t)) (approval_hits B ?key tas)
        = xs @ py_str B i1 # ys @ py_str B i2 # zs"
      by (intro hits_in_order [of p q tas i1 fl1 i2 fl2 n1 s1 B ?key n2 s2]) simp_all
    then obtain xs ys zs where ids: "map (\<lambda>t. py_str B (fst t)) (approval_hits B ?key tas)
        = xs @ py_str B i1 # ys @ py_str B i2 # zs"
      by (elim exE)
    then obtain t rest where hs: "approval_hits B ?key tas = t # rest"
      by (cases "approval_hits B ?key tas") auto
    obtain i n s where t: "t = (i, n, s)" by (cases t)
    have "map (\<lambda>(i, n, s). JStr (py_str B i)) (approval_hits B ?key tas)
        = map JStr (map (\<lambda>t. py_str B (fst t)) (approval_hits B ?key tas))"
      by (simp add: case_prod_unfold comp_def)
    with ids have "map (\<lambda>(i, n, s). JStr (py_str B i)) ((i, n, s) # rest)
        = map JStr (xs @ py_str B i1 # ys @ py_str B i2 # zs)"
      unfolding hs t by (simp only:)
    with m [of ?key] hs t
    have "map_of vs ?key = Some (JDict [(''name'', JStr n),
        (''attachments'', JList (map JStr (xs @ py_str B i1 # ys @ py_str B i2 # zs))),
        (''status'', s)])"
      by (simp only: list.case prod.case)
    then show ?thesis
      by (intro exI [of _ "[(''name'', JStr n),
          (''attachments'', JList (map JStr (xs @ py_str B i1 # ys @ py_str B i2 # zs))),
          (''status'', s)]"] exI [of _ xs] exI [of _ ys] exI [of _ zs]) simp
  qed
  have two: "vs = [(base_name n @ '' '' @ py_str B s,
                      JDict [(''name'', JStr n),
                             (''attachments'', JList [JStr (py_str B i1), JStr (py_str B i2)]),
                             (''status'', s)])]"
    if h: "tas = [(i1, [(n, s)]), (i2, [(n, s)])] \<and> prefix approval_base_flag n" for i1 i2 n s
  proof -
    from h assms have "build_versions B (JDict bd)
        = Inr (JDict (map (\<lambda>(k, v). (k, version_json v))
            (foldl (version_step B) [] [(i1, n, s), (i2, n, s)])))"
      by (simp add: build_versions_def py_iter_def version_attachments_loop_fold
          flag_triples_def)
    with h b show ?thesis
      by (simp add: version_step_def version_json_def version_key_def)
  qed
  show ?thesis
  proof (rule exI [of _ vs], intro conjI allI impI)
    show "build_versions B (JDict bd) = Inr (JDict vs)" by fact
    show "distinct (map fst vs)" by fact
    show "map_of d' ''versions'' = Some (JDict vs)"
      if "serialize_bug B b' = Inr (JDict d') \<and> payload_data b' = JDict p'
        \<and> map_of p' ''bug'' = Some (JDict bd)" for b' p' d'
      using that by (rule sb)
    show "map_of vs key =
          (case approval_hits B key tas of
             [] \<Rightarrow> None
           | (i, n, s) # rest \<Rightarrow>
               Some (JDict [(''name'', JStr n),
                            (''attachments'',
                               JList (map (\<lambda>(i, n, s). JStr (py_str B i)) ((i, n, s) # rest))),
                            (''status'', s)]))" for key
      by (rule m)
    show "\<exists>e xs ys zs. map_of vs (version_key B n1 s1) = Some (JDict e)
        \<and> map_of e ''attachments''
            = Some (JList (map JStr (xs @ py_str B i1 # ys @ py_str B i2 # zs)))"
      if "p < q \<and> q < length tas \<and> tas ! p = (i1, fl1) \<and> tas ! q = (i2, fl2)
        \<and> (n1, s1) \<in> set fl1 \<and> prefix approval_base_flag n1
        \<and> (n2, s2) \<in> set fl2 \<and> prefix approval_base_flag n2
        \<and> version_key B n1 s1 = version_key B n2 s2"
      for p q i1 fl1 i2 fl2 n1 s1 n2 s2
      using that by (rule ord)
    show "vs = [(base_name n @ '' '' @ py_str B s,
                      JDict [(''name'', JStr n),
                             (''attachments'', JList [JStr (py_str B i1), JStr (py_str B i2)]),
                             (''status'', s)])]"
      if "tas = [(i1, [(n, s)]), (i2, [(n, s)])] \<and> prefix approval_base_flag n" for i1 i2 n s
      using that by (rule two)
  qed
qed


lemma base_name_beta: "base_name ''approval-mozilla-beta'' = ''beta''"
  by code_simp

theorem versions_merge_witness:
  "map_of ex_bug_data ''attachments''
     = Some (JList [JDict [(''id'', JInt 42), (''flags'', JList [flag_beta])],
                    JDict [(''id'', JInt 43), (''flags'', JList [flag_beta])]])
   \<and> list_all2 (\<lambda>a (i, fl). is_attachment a i fl)
       [JDict [(''id'', JInt 42), (''flags'', JList [flag_beta])],
        JDict [(''id'', JInt 43), (''flags'', JList [flag_beta])]]
       [(JInt 42, [(''approval-mozilla-beta'', JStr ''+'')]),
        (JInt 43, [(''approval-mozilla-beta'', JStr ''+'')])]
   \<and> prefix approval_base_flag ''approval-mozilla-beta''
   \<and> build_versions toy_builtins (JDict ex_bug_data)
     = Inr (JDict [(''beta +'',
              JDict [(''name'', JStr ''approval-mozilla-beta''),
                     (''attachments'', JList [JStr ''42'', JStr ''43'']),
                     (''status'', JStr ''+'')])])
   \<and> serialize_bug toy_builtins ex_bug = Inr (JDict ex_bug_out)
   \<and> map_of ex_bug_out ''versions''
     = Some (JDict [(''beta +'',
              JDict [(''name'', JStr ''approval-mozilla-beta''),
                     (''attachments'', JList [JStr ''42'', JStr ''43'']),
                     (''status'', JStr ''+'')])])"
proof -
  let ?atts = "[JDict [(''id'', JInt 42), (''flags'', JList [flag_beta])],
                JDict [(''id'', JInt 43), (''flags'', JList [flag_beta])]]"
  let ?tas = "[(JInt 42, [(''approval-mozilla-beta'', JStr ''+'')]),
               (JInt 43, [(''approval-mozilla-beta'', JStr ''+'')])]"
  have h1: "map_of ex_bug_data ''attachments'' = Some (JList ?atts)"
    by (simp add: ex_bug_data_def)
  have h2: "list_all2 (\<lambda>a (i, fl). is_attachment a i fl) ?atts ?tas"
    by (simp add: is_attachment_def is_flag_def flag_beta_def)
  have h3: "prefix approval_base_flag ''approval-mozilla-beta''"
    by (simp add: approval_base_flag_def)
  have h4: "payload_data ex_bug = JDict ex_payload"
    "map_of ex_payload ''bug'' = Some (JDict ex_bug_data)"
    by (simp_all add: ex_bug_def ex_payload_def)
  from versions_merge [OF h1 h2, of toy_builtins]
  obtain vs where b: "build_versions toy_builtins (JDict ex_bug_data) = Inr (JDict vs)"
    and sb: "serialize_bug toy_builtins ex_bug = Inr (JDict ex_bug_out)
        \<and> payload_data ex_bug = JDict ex_payload
        \<and> map_of ex_payload ''bug'' = Some (JDict ex_bug_data)
      \<longrightarrow> map_of ex_bug_out ''versions'' = Some (JDict vs)"
    and two: "?tas = [(JInt 42, [(''approval-mozilla-beta'', JStr ''+'')]),
                      (JInt 43, [(''approval-mozilla-beta'', JStr ''+'')])]
        \<and> prefix approval_base_flag ''approval-mozilla-beta''
      \<longrightarrow> vs = [(base_name ''approval-mozilla-beta'' @ '' '' @ py_str toy_builtins (JStr ''+''),
                 JDict [(''name'', JStr ''approval-mozilla-beta''),
                        (''attachments'',
                           JList [JStr (py_str toy_builtins (JInt 42)),
                                  JStr (py_str toy_builtins (JInt 43))]),
                        (''status'', JStr ''+'')])]"
    by (elim exE conjE) (erule allE)+
  have s42: "py_str toy_builtins (JInt 42) = ''42''" and s43: "py_str toy_builtins (JInt 43) = ''43''"
    by code_simp+
  have sp: "py_str toy_builtins (JStr ''+'') = ''+''"
    by (simp add: py_str_def)
  from two h3 have "vs = [(''beta +'',
              JDict [(''name'', JStr ''approval-mozilla-beta''),
                     (''attachments'', JList [JStr ''42'', JStr ''43'']),
                     (''status'', JStr ''+'')])]"
    by (simp add: base_name_beta s42 s43 sp)
  with b sb h1 h2 h3 h4 ex_bug_serialized show ?thesis
    by simp
qed

text \<open>When the prefix does not occur again in the name, \<^verbatim>\<open>replace\<close> removes the prefix
  alone.\<close>

lemma replace_no_occurrence:
  assumes "old \<noteq> []" "\<not> is_substring old s"
  shows "replace old new s = s"
  using assms(2)
proof (induction s)
  case Nil
  with assms(1) show ?case by (subst replace.simps) simp
next
  case (Cons c cs)
  then have "\<not> prefix old (c # cs)" "replace old new cs = cs" by simp_all
  with assms(1) show ?case by (subst replace.simps) simp
qed

lemma base_name_suffix:
  assumes "prefix approval_base_flag n"
    and "\<not> is_substring approval_base_flag (drop (length approval_base_flag) n)"
  shows "base_name n = drop (length approval_base_flag) n"
proof -
  have ne: "approval_base_flag \<noteq> []" by (simp add: approval_base_flag_def)
  from assms(1) ne have "base_name n = replace approval_base_flag [] (drop (length approval_base_flag) n)"
    unfolding base_name_def by (subst replace.simps) simp
  with replace_no_occurrence [OF ne assms(2)] show ?thesis by simp
qed

text \<open>
  Claim C5 on a name in which the prefix occurs twice. Line 61 calls \<^verbatim>\<open>replace\<close> without
  a count (line 76 passes the count 1), so every occurrence goes: the rest of
  \<^verbatim>\<open>approval-mozilla-approval-mozilla-beta\<close> after the prefix is
  \<^verbatim>\<open>approval-mozilla-beta\<close>, the base name computed is \<^verbatim>\<open>beta\<close>, and the flag is grouped
  with the flags named \<^verbatim>\<open>approval-mozilla-beta\<close>.
\<close>

theorem base_name_repeated_prefix:
  "prefix approval_base_flag ''approval-mozilla-approval-mozilla-beta''
   \<and> drop (length approval_base_flag) ''approval-mozilla-approval-mozilla-beta''
       = ''approval-mozilla-beta''
   \<and> base_name ''approval-mozilla-approval-mozilla-beta'' = ''beta''
   \<and> version_key toy_builtins ''approval-mozilla-approval-mozilla-beta'' (JStr ''+'') = ''beta +''
   \<and> build_versions toy_builtins (JDict twice_bug_data)
     = Inr (JDict [(''beta +'',
              JDict [(''name'', JStr ''approval-mozilla-beta''),
                     (''attachments'', JList [JStr ''42'', JStr ''43'']),
                     (''status'', JStr ''+'')])])"
  by code_simp


end
